(* ===== verification/Gateway_Prelude.thy ===== *)
theory Gateway_Prelude
  imports Complex_Main "HOL-Library.Word" "HOL-Library.Signed_Division" "HOL-Library.Sublist"
begin

text \<open>
  What every component shares: Go's signed 64-bit arithmetic on \<^typ>\<open>int\<close> with the
  wrap-around written out, the string functions of Go's standard library that the gateway calls
  (\<open>strings.TrimSpace\<close>, \<open>strings.HasPrefix\<close>, \<open>strconv.Itoa\<close> and
  \<open>strconv.FormatInt\<close>), and generic lemmas on lists.  A Go \<open>string\<close> is its byte sequence, an
  Isabelle \<^typ>\<open>string\<close>; a \<open>time.Duration\<close> and a Unix time in nanoseconds are \<^typ>\<open>int\<close>.
\<close>

named_theorems go_int "facts on wrapping 64-bit arithmetic"
named_theorems go_str "facts on the string functions of Go's standard library"

type_synonym gostring = string
type_synonym duration = int
type_synonym 'a result = "string + 'a"

section \<open>Signed 64-bit integers\<close>

definition wrap64 :: "int \<Rightarrow> int" where
  "wrap64 x = (x + 2 ^ 63) mod 2 ^ 64 - 2 ^ 63"

definition in_int64 :: "int \<Rightarrow> bool" where
  "in_int64 x \<longleftrightarrow> - (2 ^ 63) \<le> x \<and> x < 2 ^ 63"

lemma wrap64_in_int64 [simp, go_int]: "in_int64 (wrap64 x)"
  by (auto simp: in_int64_def wrap64_def)

lemma wrap64_id [go_int]: "in_int64 x \<Longrightarrow> wrap64 x = x"
  by (auto simp: in_int64_def wrap64_def)

lemma wrap64_wrap64 [simp]: "wrap64 (wrap64 x) = wrap64 x"
  by (rule wrap64_id) simp

text \<open>Go's integer division truncates towards zero; on non-negative operands it is \<open>div\<close>.\<close>

lemma smod_nonneg [go_int]: "0 \<le> a \<Longrightarrow> 0 < b \<Longrightarrow> (a :: int) smod b = a mod b"
  by (cases "a = 0") (simp_all add: smod_int_alt_def)

lemma sdiv_nonneg [go_int]: "0 \<le> a \<Longrightarrow> 0 < b \<Longrightarrow> (a :: int) sdiv b = a div b"
  by (cases "a = 0") (simp_all add: signed_divide_int_def)

abbreviation (input) time_Second :: int where "time_Second \<equiv> 1000000000"
abbreviation (input) time_Millisecond :: int where "time_Millisecond \<equiv> 1000000"

section \<open>White space and prefixes\<close>

text \<open>
  The UTF-8 encodings of the code points \<open>unicode.IsSpace\<close> accepts: the six ASCII ones, U+0085,
  U+00A0, U+1680, U+2000 to U+200A, U+2028, U+2029, U+202F, U+205F and U+3000.
\<close>

definition space_runes :: "string list" where
  "space_runes =
     map (map char_of)
      ([[9], [10], [11], [12], [13], [32], [0xC2, 0x85], [0xC2, 0xA0], [0xE1, 0x9A, 0x80]]
       @ map (\<lambda>k. [0xE2, 0x80, k]) [0x80, 0x81, 0x82, 0x83, 0x84, 0x85, 0x86, 0x87, 0x88, 0x89, 0x8A,
            0xA8, 0xA9, 0xAF]
       @ [[0xE2, 0x81, 0x9F], [0xE3, 0x80, 0x80 :: nat]])"

text \<open>Removes elements of \<open>rs\<close> from the front of a string as long as one is there.\<close>

function strip_runes :: "string list \<Rightarrow> string \<Rightarrow> string" where
  "strip_runes rs s =
     (case find (\<lambda>r. r \<noteq> [] \<and> prefix r s) rs of
        None \<Rightarrow> s
      | Some r \<Rightarrow> strip_runes rs (drop (length r) s))"
  by pat_completeness auto
termination
  by (relation "measure (length \<circ> snd)") (auto simp: find_Some_iff prefix_def)

declare strip_runes.simps [simp del]

text \<open>\<open>strings.TrimSpace\<close>: a trailing rune is found by its encoding's last bytes.\<close>

definition TrimSpace :: "gostring \<Rightarrow> gostring" where
  "TrimSpace s = rev (strip_runes (map rev space_runes) (rev (strip_runes space_runes s)))"

definition HasPrefix :: "gostring \<Rightarrow> gostring \<Rightarrow> bool" where
  "HasPrefix s p \<longleftrightarrow> prefix p s"

lemma strip_runes_suffix: "suffix (strip_runes rs s) s"
proof (induction rs s rule: strip_runes.induct)
  case (1 rs s)
  show ?case
  proof (cases "find (\<lambda>r. r \<noteq> [] \<and> prefix r s) rs")
    case None
    then show ?thesis by (subst strip_runes.simps) simp
  next
    case (Some r)
    with 1 have "suffix (strip_runes rs (drop (length r) s)) (drop (length r) s)" by simp
    then have "suffix (strip_runes rs (drop (length r) s)) s"
      using suffix_drop suffix_order.trans by blast
    with Some show ?thesis by (subst strip_runes.simps) simp
  qed
qed

lemma strip_runes_clean: "r \<in> set rs \<Longrightarrow> r \<noteq> [] \<Longrightarrow> \<not> prefix r (strip_runes rs s)"
proof (induction rs s rule: strip_runes.induct)
  case (1 rs s)
  show ?case
  proof (cases "find (\<lambda>r. r \<noteq> [] \<and> prefix r s) rs")
    case None
    then have "strip_runes rs s = s" by (subst strip_runes.simps) simp
    with None 1 show ?thesis by (auto simp: find_None_iff)
  next
    case (Some r')
    with 1 show ?thesis by (subst strip_runes.simps) simp
  qed
qed

lemma strip_runes_fixed: "(\<And>r. r \<in> set rs \<Longrightarrow> r \<noteq> [] \<Longrightarrow> \<not> prefix r s) \<Longrightarrow> strip_runes rs s = s"
  by (subst strip_runes.simps) (auto split: option.splits simp: find_Some_iff)

lemma TrimSpace_Nil [simp, go_str]: "TrimSpace [] = []"
  by (auto simp: TrimSpace_def strip_runes_fixed)

lemma blank_rune: "'' '' \<in> set space_runes" "\<forall>r\<in>set space_runes. r = [] \<or> hd r \<noteq> CHR '' '' \<or> r = '' ''"
  by code_simp+

lemma TrimSpace_blank [go_str]: "TrimSpace (CHR '' '' # s) = TrimSpace s"
proof -
  let ?P = "\<lambda>r. r \<noteq> [] \<and> prefix r (CHR '' '' # s)"
  have only: "r = '' ''" if "r \<in> set space_runes" "?P r" for r
  proof -
    have "hd r = CHR '' ''" using that(2) by (cases r) auto
    then show ?thesis using bspec [OF blank_rune(2) that(1)] that(2) by blast
  qed
  have "find ?P space_runes = Some '' ''"
  proof (cases "find ?P space_runes")
    case None
    then show ?thesis using blank_rune(1) by (auto simp: find_None_iff)
  next
    case (Some r)
    then obtain i where "i < length space_runes" "?P r" "r = space_runes ! i" by (auto simp: find_Some_iff)
    then have "r = '' ''" using only [OF nth_mem] by simp
    then show ?thesis using Some by simp
  qed
  then have "strip_runes space_runes (CHR '' '' # s) = strip_runes space_runes s" by (subst strip_runes.simps) simp
  then show ?thesis by (simp add: TrimSpace_def)
qed

lemma strip_runes_infix: "sublist (TrimSpace s) s"
proof -
  let ?a = "strip_runes space_runes s"
  let ?b = "strip_runes (map rev space_runes) (rev ?a)"
  have "suffix ?b (rev ?a)" and a: "suffix ?a s"
    by (rule strip_runes_suffix)+
  then have "prefix (rev ?b) ?a" by (simp add: suffix_to_prefix)
  then have "sublist (rev ?b) ?a" by (rule prefix_imp_sublist)
  moreover have "sublist ?a s" using a by (rule suffix_imp_sublist)
  ultimately show ?thesis
    unfolding TrimSpace_def by (rule sublist_order.order.trans)
qed

text \<open>A string that begins and ends with a printable ASCII character other than the blank is left as it is.\<close>

definition graphic :: "char \<Rightarrow> bool" where
  "graphic c \<longleftrightarrow> 32 < (of_char c :: nat) \<and> (of_char c :: nat) < 127"

lemma space_runes_graphic: "r \<in> set space_runes \<Longrightarrow> r \<noteq> [] \<and> \<not> graphic (hd r) \<and> \<not> graphic (last r)"
  by (auto simp: space_runes_def graphic_def)

lemma prefix_hd: "prefix r s \<Longrightarrow> r \<noteq> [] \<Longrightarrow> hd s = hd r"
  by (auto simp: prefix_def)

lemma strip_runes_graphic:
  assumes "graphic (hd s)" and "\<And>r. r \<in> set rs \<Longrightarrow> \<not> graphic (hd r)"
  shows "strip_runes rs s = s"
proof (rule strip_runes_fixed)
  fix r assume r: "r \<in> set rs" "r \<noteq> []"
  then show "\<not> prefix r s" using assms(1) assms(2) [OF r(1)] prefix_hd [of r s] by auto
qed

lemma TrimSpace_graphic [go_str]:
  assumes "graphic (hd s)" and "graphic (last s)"
  shows "TrimSpace s = s"
proof -
  have "strip_runes space_runes s = s"
    using assms(1) by (rule strip_runes_graphic) (use space_runes_graphic in blast)
  moreover have "strip_runes (map rev space_runes) (rev s) = rev s"
    by (rule strip_runes_graphic) (use assms(2) space_runes_graphic in \<open>auto simp: hd_rev\<close>)
  ultimately show ?thesis by (simp add: TrimSpace_def)
qed

text \<open>\<open>strings.Split\<close> at a one-byte separator.\<close>

fun split_on :: "char \<Rightarrow> gostring \<Rightarrow> gostring list" where
  "split_on sep [] = [[]]"
| "split_on sep (c # s) =
     (if c = sep then [] # split_on sep s
      else case split_on sep s of [] \<Rightarrow> [[c]] | t # ts \<Rightarrow> (c # t) # ts)"

section \<open>Decimal and base-36 numerals\<close>

definition digit_char :: "nat \<Rightarrow> char" where
  "digit_char d = (if d < 10 then char_of (48 + d) else char_of (87 + d))"

fun digits_base :: "nat \<Rightarrow> nat \<Rightarrow> string" where
  "digits_base b n =
     (if b < 2 \<or> n < b then [digit_char n] else digits_base b (n div b) @ [digit_char (n mod b)])"

declare digits_base.simps [simp del]

text \<open>\<open>strconv.FormatInt\<close> and \<open>strconv.Itoa\<close>.\<close>

definition FormatInt :: "int \<Rightarrow> nat \<Rightarrow> string" where
  "FormatInt n b = (if n < 0 then CHR ''-'' # digits_base b (nat (- n)) else digits_base b (nat n))"

abbreviation Itoa :: "int \<Rightarrow> string" where "Itoa n \<equiv> FormatInt n 10"

lemma digits_base_not_Nil [simp]: "digits_base b n \<noteq> []"
  by (subst digits_base.simps) simp

lemma FormatInt_not_Nil [simp, go_str]: "FormatInt n b \<noteq> []"
  by (simp add: FormatInt_def)

text \<open>\<open>hex.EncodeToString\<close> and the verb \<open>%x\<close> on a byte slice.\<close>

definition hex_encode :: "nat list \<Rightarrow> string" where
  "hex_encode bs = concat (map (\<lambda>b. [digit_char (b div 16), digit_char (b mod 16)]) bs)"

lemma length_hex_encode [simp, go_str]: "length (hex_encode bs) = 2 * length bs"
  by (induction bs) (simp_all add: hex_encode_def)

lemma hex_encode_Cons: "hex_encode (b # bs) = digit_char (b div 16) # digit_char (b mod 16) # hex_encode bs"
  by (simp add: hex_encode_def)

lemma of_char_digit_char: "n < 36 \<Longrightarrow> of_char (digit_char n) = (if n < 10 then 48 + n else 87 + n :: nat)"
  by (simp add: digit_char_def take_bit_nat_eq_self)

lemma digit_code_inj:
  "(if a < 10 then 48 + a else 87 + a :: nat) = (if b < 10 then 48 + b else 87 + b) \<Longrightarrow> a = b"
  by (simp split: if_splits)

lemma digit_char_inj: "a < 36 \<Longrightarrow> b < 36 \<Longrightarrow> digit_char a = digit_char b \<longleftrightarrow> a = b"
  by (metis (full_types) of_char_digit_char digit_code_inj)

lemma byte_digits: "(b :: nat) < 256 \<Longrightarrow> b div 16 < 36 \<and> b mod 16 < 36"
  by auto

lemma hex_encode_inj:
  "\<forall>x\<in>set bs. x < 256 \<Longrightarrow> \<forall>x\<in>set cs. x < 256 \<Longrightarrow> hex_encode bs = hex_encode cs \<Longrightarrow> bs = cs"
proof (induction bs arbitrary: cs)
  case Nil
  then show ?case by (cases cs) (simp_all add: hex_encode_def)
next
  case (Cons b bs)
  then obtain c cs' where cs: "cs = c # cs'" by (cases cs) (simp_all add: hex_encode_def)
  have "b div 16 < 36" "c div 16 < 36" "b mod 16 < 36" "c mod 16 < 36"
    using Cons.prems cs byte_digits [of b] byte_digits [of c] by simp_all
  with Cons.prems cs have "b div 16 = c div 16" "b mod 16 = c mod 16" "hex_encode bs = hex_encode cs'"
    by (simp_all add: hex_encode_Cons digit_char_inj)
  then have "b = c" by (metis div_mult_mod_eq)
  moreover have "bs = cs'"
    using Cons.prems cs \<open>hex_encode bs = hex_encode cs'\<close> by (intro Cons.IH) simp_all
  ultimately show ?case by (simp add: cs)
qed

lemma bytes_lt: "\<forall>x\<in>set (map of_char s). (x :: nat) < 256"
  by (induction s) auto

lemma separator_unique:
  "x \<notin> set a \<Longrightarrow> x \<notin> set c \<Longrightarrow> a @ x # b = c @ x # d \<longleftrightarrow> a = c \<and> b = d"
proof (induction a arbitrary: c)
  case Nil
  then show ?case by (cases c) auto
next
  case (Cons y a)
  then show ?case by (cases c) auto
qed

end
