(* ===== verification/Float64.thy ===== *)
theory Float64
  imports Gateway_Prelude "HOL-Library.Log_Nat"
begin

text \<open>
  IEEE-754 double precision as Lua, which runs the token-bucket script inside Redis, and Go's
  \<open>float64\<close> use it.  A finite double is its rational value and an operation is the exact rational
  operation followed by \<open>f64\<close>, rounding to 53 significant bits, ties to even.  The exponent is
  unbounded here: no value the gateway computes comes near the overflow or subnormal range.
  The locale \<open>rounding\<close> states what the clients need of rounding; its lemmas show when
  double arithmetic on integers is exact.  It is interpreted on \<open>f64\<close>.
\<close>

section \<open>Rounding to nearest, ties to even\<close>

definition round_even :: "rat \<Rightarrow> int" where
  "round_even x =
     (let n = \<lfloor>x\<rfloor>; d = x - of_int n in
      if d < 1 / 2 then n else if d > 1 / 2 then n + 1 else if even n then n else n + 1)"

text \<open>\<open>expo x\<close> is the exponent of the leading bit of a positive \<open>x\<close>.\<close>

definition expo :: "rat \<Rightarrow> int" where
  "expo x =
     (let (n, d) = quotient_of x; k = bitlen n - bitlen d in
      if 2 powi k \<le> x then k else k - 1)"

definition f64 :: "rat \<Rightarrow> rat" where
  "f64 x = (if x = 0 then 0
            else let u = 2 powi (expo \<bar>x\<bar> - 52) in of_int (round_even (x / u)) * u)"

lemma round_even_of_int [simp]: "round_even (of_int n) = n"
  by (simp add: round_even_def)

lemma round_even_err: "\<bar>of_int (round_even x) - x\<bar> \<le> 1 / 2"
  using floor_correct [of x] unfolding round_even_def Let_def abs_le_iff
  by (simp split: if_split) linarith

lemma round_even_mono: "x \<le> y \<Longrightarrow> round_even x \<le> round_even y"
proof -
  assume xy: "x \<le> y"
  consider (eq) "\<lfloor>x\<rfloor> = \<lfloor>y\<rfloor>" | (lt) "\<lfloor>x\<rfloor> < \<lfloor>y\<rfloor>"
    using floor_mono [OF xy] by linarith
  then show ?thesis
  proof cases
    case eq
    with xy show ?thesis unfolding round_even_def Let_def by auto
  next
    case lt
    have "round_even x \<le> \<lfloor>x\<rfloor> + 1" and "\<lfloor>y\<rfloor> \<le> round_even y"
      unfolding round_even_def Let_def by auto
    with lt show ?thesis by linarith
  qed
qed

lemma bitlen_powi:
  assumes "0 < n"
  shows "2 powi (bitlen n - 1) \<le> (of_int n :: rat)" and "(of_int n :: rat) < 2 powi (bitlen n)"
proof -
  have b: "1 \<le> bitlen n" using assms bitlen_eq_zero_iff [of n] bitlen_nonneg [of n] by linarith
  from bitlen_bounds [OF assms]
  have "of_int (2 ^ nat (bitlen n - 1)) \<le> (of_int n :: rat)"
    and "(of_int n :: rat) < of_int (2 ^ nat (bitlen n))"
    by (simp_all only: of_int_le_iff of_int_less_iff)
  with b show "2 powi (bitlen n - 1) \<le> (of_int n :: rat)" and "(of_int n :: rat) < 2 powi (bitlen n)"
    by (simp_all add: power_int_nonneg_exp)
qed

lemma expo_bounds:
  assumes "0 < x"
  shows "2 powi expo x \<le> x" and "x < 2 powi (expo x + 1)"
proof -
  obtain n d where q: "quotient_of x = (n, d)" by (cases "quotient_of x")
  have d: "0 < d" and x: "x = of_int n / of_int d"
    using q quotient_of_denom_pos quotient_of_div by blast+
  with assms have n: "0 < n" by (simp add: zero_less_divide_iff)
  let ?k = "bitlen n - bitlen d"
  have "2 powi (?k - 1) = (2 powi (bitlen n - 1) / 2 powi bitlen d :: rat)"
    by (simp add: power_int_diff)
  also have "\<dots> \<le> of_int n / of_int d"
    using bitlen_powi [OF n] bitlen_powi [OF d] d n by (intro frac_le) auto
  finally have lo: "2 powi (?k - 1) \<le> x" by (simp add: x)
  have "(of_int n / of_int d :: rat) < 2 powi bitlen n / 2 powi (bitlen d - 1)"
    using bitlen_powi [OF n] bitlen_powi [OF d] d n by (intro frac_less) auto
  also have "\<dots> = 2 powi (?k + 1)" by (simp add: power_int_diff power_int_add)
  finally have hi: "x < 2 powi (?k + 1)" by (simp add: x)
  show "2 powi expo x \<le> x" and "x < 2 powi (expo x + 1)"
    using lo hi q by (auto simp: expo_def Let_def)
qed

lemma expo_mono: "0 < x \<Longrightarrow> x \<le> y \<Longrightarrow> expo x \<le> expo y"
proof (rule ccontr)
  assume "0 < x" "x \<le> y" "\<not> expo x \<le> expo y"
  then have "(2 :: rat) powi (expo y + 1) \<le> 2 powi expo x"
    by (intro power_int_increasing) auto
  with expo_bounds [of x] expo_bounds [of y] \<open>0 < x\<close> \<open>x \<le> y\<close> show False by linarith
qed

text \<open>The significand of a positive value lies between \<open>2 ^ 52\<close> and \<open>2 ^ 53\<close>.\<close>

lemma significand_bounds:
  assumes "0 < x"
  shows "2 ^ 52 \<le> x / 2 powi (expo x - 52)" and "x / 2 powi (expo x - 52) < 2 ^ 53"
proof -
  have p: "(0 :: rat) < 2 powi (expo x - 52)" by simp
  have "2 ^ 52 * 2 powi (expo x - 52) = (2 powi expo x :: rat)"
    by (simp add: power_int_diff)
  with expo_bounds(1) [OF assms] p show "2 ^ 52 \<le> x / 2 powi (expo x - 52)"
    by (simp add: pos_le_divide_eq)
  have "2 ^ 53 * 2 powi (expo x - 52) = (2 powi (expo x + 1) :: rat)"
    by (simp add: power_int_diff power_int_add)
  with expo_bounds(2) [OF assms] p show "x / 2 powi (expo x - 52) < 2 ^ 53"
    by (simp add: pos_divide_less_eq)
qed

lemma f64_pos: "0 < x \<Longrightarrow>
    f64 x = of_int (round_even (x / 2 powi (expo x - 52))) * 2 powi (expo x - 52)"
  by (simp add: f64_def Let_def)

lemma f64_0 [simp]: "f64 0 = 0"
  by (simp add: f64_def)

lemma f64_err:
  assumes "0 \<le> x"
  shows "\<bar>f64 x - x\<bar> \<le> x / 2 ^ 53"
proof (cases "x = 0")
  case False
  with assms have x: "0 < x" by simp
  let ?u = "2 powi (expo x - 52) :: rat" and ?s = "x / 2 powi (expo x - 52)"
  have u: "0 < ?u" by simp
  have "f64 x - x = (of_int (round_even ?s) - ?s) * ?u"
    using u by (simp add: f64_pos [OF x] algebra_simps)
  then have "\<bar>f64 x - x\<bar> = \<bar>of_int (round_even ?s) - ?s\<bar> * ?u"
    by (simp add: abs_mult)
  also have "\<dots> \<le> 1 / 2 * ?u"
    by (intro mult_right_mono round_even_err) simp
  also have "\<dots> \<le> x / 2 ^ 53"
    using significand_bounds(1) [OF x] u by (simp add: field_simps)
  finally show ?thesis .
qed simp

lemma f64_range:
  assumes "0 < x"
  shows "2 powi expo x \<le> f64 x" and "f64 x \<le> 2 powi (expo x + 1)"
proof -
  let ?s = "x / 2 powi (expo x - 52)"
  have "round_even (of_int (2 ^ 52)) \<le> round_even ?s"
    using significand_bounds(1) [OF assms] by (intro round_even_mono) simp
  then have lo: "2 ^ 52 \<le> round_even ?s" by (simp only: round_even_of_int)
  have "round_even ?s \<le> round_even (of_int (2 ^ 53))"
    using significand_bounds(2) [OF assms] by (intro round_even_mono) simp
  then have hi: "round_even ?s \<le> 2 ^ 53" by (simp only: round_even_of_int)
  have "of_int (2 ^ 52) * 2 powi (expo x - 52) \<le> (of_int (round_even ?s) * 2 powi (expo x - 52) :: rat)"
    using lo by (intro mult_right_mono, subst of_int_le_iff) auto
  then show "2 powi expo x \<le> f64 x" by (simp add: f64_pos [OF assms] power_int_diff)
  have "of_int (round_even ?s) * 2 powi (expo x - 52) \<le> (of_int (2 ^ 53) * 2 powi (expo x - 52) :: rat)"
    using hi by (intro mult_right_mono, subst of_int_le_iff) auto
  then show "f64 x \<le> 2 powi (expo x + 1)"
    by (simp add: f64_pos [OF assms] power_int_diff power_int_add)
qed

lemma f64_mono:
  assumes "0 \<le> x" and "x \<le> y"
  shows "f64 x \<le> f64 y"
proof (cases "x = 0")
  case True
  moreover have "0 \<le> f64 y"
  proof (cases "y = 0")
    case False
    with assms have "2 powi expo y \<le> f64 y" by (intro f64_range(1)) simp
    moreover have "(0 :: rat) < 2 powi expo y" by simp
    ultimately show ?thesis by linarith
  qed simp
  ultimately show ?thesis by simp
next
  case False
  with assms have x: "0 < x" and y: "0 < y" by auto
  consider (eq) "expo x = expo y" | (lt) "expo x + 1 \<le> expo y"
    using expo_mono [OF x assms(2)] by linarith
  then show ?thesis
  proof cases
    case eq
    have "round_even (x / 2 powi (expo y - 52)) \<le> round_even (y / 2 powi (expo y - 52))"
      using assms by (intro round_even_mono divide_right_mono) auto
    then show ?thesis
      unfolding f64_pos [OF x] f64_pos [OF y] eq by (intro mult_right_mono) auto
  next
    case lt
    then have "(2 :: rat) powi (expo x + 1) \<le> 2 powi expo y"
      by (intro power_int_increasing) auto
    with f64_range(2) [OF x] f64_range(1) [OF y] show ?thesis by linarith
  qed
qed

lemma f64_of_int:
  assumes "0 \<le> k" and "k \<le> 2 ^ 53"
  shows "f64 (of_int k) = of_int k"
proof (cases "k = 0")
  case False
  with assms have k: "0 < (of_int k :: rat)" by simp
  show ?thesis
  proof (cases "k = 2 ^ 53")
    case True
    have "expo (of_int k) = 53"
      using True by (simp add: expo_def bitlen_pow2 [of 1 53, simplified] quotient_of_int)
    then show ?thesis unfolding f64_pos [OF k] by (simp add: True round_even_def)
  next
    case False
    have "2 powi expo (of_int k) < (2 powi 53 :: rat)"
    proof -
      have "2 powi expo (of_int k) \<le> (of_int k :: rat)" by (rule expo_bounds [OF k])
      also have "\<dots> < of_int (2 ^ 53)" using assms False by (subst of_int_less_iff) simp
      finally show ?thesis by simp
    qed
    then have e: "expo (of_int k) < 53"
      by (rule contrapos_pp) (simp add: not_less power_int_increasing del: power_int_numeral)
    have "1 / 2 powi (expo (of_int k) - 52) = (2 powi (52 - expo (of_int k)) :: rat)"
      using power_int_minus_divide [of "2 :: rat" "expo (of_int k) - 52"] by simp
    also have "\<dots> = of_int (2 ^ nat (52 - expo (of_int k)))"
      using e by (simp add: power_int_nonneg_exp)
    finally obtain m :: int where m: "1 / 2 powi (expo (of_int k) - 52) = (of_int m :: rat)" by blast
    have "of_int k / 2 powi (expo (of_int k) - 52) = (of_int (k * m) :: rat)"
      using m by (metis mult.right_neutral of_int_mult times_divide_eq_right)
    moreover from this have "of_int (k * m) * 2 powi (expo (of_int k) - 52) = (of_int k :: rat)"
      by (simp add: nonzero_divide_eq_eq del: of_int_mult)
    ultimately show ?thesis by (simp add: f64_pos [OF k] del: of_int_mult)
  qed
qed simp

section \<open>What rounding promises\<close>

locale rounding =
  fixes rnd :: "rat \<Rightarrow> rat"
  assumes rnd_mono: "0 \<le> x \<Longrightarrow> x \<le> y \<Longrightarrow> rnd x \<le> rnd y"
    and rnd_of_int: "0 \<le> k \<Longrightarrow> k \<le> 2 ^ 53 \<Longrightarrow> rnd (of_int k) = of_int k"
    and rnd_err: "0 \<le> x \<Longrightarrow> \<bar>rnd x - x\<bar> \<le> x / 2 ^ 53"
begin

lemma rnd_ge_limit: "2 ^ 53 \<le> x \<Longrightarrow> 2 ^ 53 \<le> rnd x"
  using rnd_mono [of "2 ^ 53" x] rnd_of_int [of "2 ^ 53"] by simp

text \<open>
  A rounded quotient of two integers below \<open>2 ^ 53\<close> never reaches the next integer, nor falls
  back to one it exceeds: the exact quotient keeps a distance of one over the divisor from it,
  which is more than the rounding error.
\<close>

lemma quotient_err:
  assumes "0 \<le> a" and "a < 2 ^ 53" and "0 < b"
  shows "\<bar>rnd (of_int a / of_int b) - of_int a / of_int b\<bar> < 1 / of_int b"
proof -
  have b: "0 < (of_int b :: rat)" using assms by simp
  have "\<bar>rnd (of_int a / of_int b) - of_int a / of_int b\<bar> \<le> of_int a / of_int b / 2 ^ 53"
    using assms by (intro rnd_err) simp
  also have "\<dots> = (of_int a / 2 ^ 53) / of_int b" by simp
  also have "\<dots> < 1 / of_int b"
  proof (rule divide_strict_right_mono [OF _ b])
    have "(of_int a :: rat) < of_int (2 ^ 53)" using assms(2) by (simp only: of_int_less_iff)
    then show "(of_int a / 2 ^ 53 :: rat) < 1" by simp
  qed
  finally show ?thesis .
qed

lemma floor_quotient:
  assumes "0 \<le> a" and "a < 2 ^ 53" and "0 < b"
  shows "\<lfloor>rnd (of_int a / of_int b)\<rfloor> = a div b"
proof (rule floor_unique)
  let ?q = "of_int a / of_int b :: rat"
  have b: "0 < (of_int b :: rat)" using assms by simp
  have "a div b \<le> a div 1" using assms by (intro zdiv_mono2) auto
  then have "rnd (of_int (a div b)) = of_int (a div b)"
    using assms by (intro rnd_of_int) (auto simp: pos_imp_zdiv_nonneg_iff)
  moreover have "of_int (a div b) \<le> ?q"
  proof -
    have "of_int (a div b * b) \<le> (of_int a :: rat)"
      using pos_mod_sign [OF assms(3), of a] div_mult_mod_eq [of a b]
      by (subst of_int_le_iff) linarith
    with b show ?thesis by (simp add: pos_le_divide_eq)
  qed
  moreover have "0 \<le> (of_int (a div b) :: rat)"
    using assms by (simp add: pos_imp_zdiv_nonneg_iff)
  ultimately show "of_int (a div b) \<le> rnd ?q" using rnd_mono by metis
  have "a + 1 \<le> (a div b + 1) * b"
    using pos_mod_bound [OF assms(3), of a] div_mult_mod_eq [of a b]
    by (simp only: distrib_right mult_1)
  then have "of_int (a + 1) \<le> (of_int ((a div b + 1) * b) :: rat)" by (simp only: of_int_le_iff)
  then have "?q + 1 / of_int b \<le> of_int (a div b) + 1"
    using b by (simp add: field_simps)
  with quotient_err [OF assms] show "rnd ?q < of_int (a div b) + 1" by linarith
qed

lemma ceiling_quotient:
  assumes "0 \<le> a" and "a < 2 ^ 53" and "0 < b"
  shows "\<lceil>rnd (of_int a / of_int b)\<rceil> = \<lceil>of_int a / of_int b :: rat\<rceil>"
proof (rule ceiling_unique)
  let ?q = "of_int a / of_int b :: rat"
  have b: "1 \<le> (of_int b :: rat)" using assms by simp
  have q: "0 \<le> ?q" using assms by simp
  have "?q \<le> of_int a" using b assms by (simp add: pos_divide_le_eq mult_le_cancel_left1)
  then have "\<lceil>?q\<rceil> \<le> a" by (simp add: ceiling_le_iff)
  moreover have "0 \<le> \<lceil>?q\<rceil>" using q by (simp add: zero_le_ceiling)
  ultimately have "rnd (of_int \<lceil>?q\<rceil>) = of_int \<lceil>?q\<rceil>" using assms by (intro rnd_of_int) linarith+
  then show "rnd ?q \<le> of_int \<lceil>?q\<rceil>" using rnd_mono [OF q le_of_int_ceiling] by simp
  have "of_int (\<lceil>?q\<rceil> - 1) < ?q" using ceiling_correct [of ?q] by simp
  then have "of_int ((\<lceil>?q\<rceil> - 1) * b) < (of_int a :: rat)" using b by (simp add: pos_less_divide_eq)
  then have "(\<lceil>?q\<rceil> - 1) * b + 1 \<le> a" by (simp only: of_int_less_iff)
  then have "of_int ((\<lceil>?q\<rceil> - 1) * b + 1) \<le> (of_int a :: rat)" by (simp only: of_int_le_iff)
  then have "of_int ((\<lceil>?q\<rceil> - 1) * b + 1) / of_int b \<le> ?q" using b by (intro divide_right_mono) auto
  moreover have "of_int ((\<lceil>?q\<rceil> - 1) * b + 1) / of_int b = (of_int \<lceil>?q\<rceil> - 1 + 1 / of_int b :: rat)"
    using b by (simp add: add_divide_distrib)
  ultimately have "of_int \<lceil>?q\<rceil> - 1 + 1 / of_int b \<le> ?q" by simp
  with quotient_err [OF assms] show "of_int \<lceil>?q\<rceil> - 1 < rnd ?q" by linarith
qed

text \<open>
  Adding a rounded product and capping at an exactly representable limit gives the exact capped
  sum: where the product or the sum leaves the exact range, both sides are the cap.
\<close>

lemma capped_sum:
  assumes "0 \<le> t" and "0 \<le> e" and "0 \<le> r" and "0 \<le> c" and "c \<le> 2 ^ 53"
  shows "min (of_int c) (rnd (of_int t + rnd (of_int e * of_int r))) = of_int (min c (t + e * r))"
proof (cases "e * r \<le> 2 ^ 53 \<and> t + e * r \<le> 2 ^ 53")
  case True
  then have "rnd (of_int (e * r)) = of_int (e * r)" and "rnd (of_int (t + e * r)) = of_int (t + e * r)"
    using assms by (simp_all only: rnd_of_int mult_nonneg_nonneg add_nonneg_nonneg)
  then show ?thesis by (simp add: of_int_min)
next
  case False
  have c: "(of_int c :: rat) \<le> 2 ^ 53"
    using assms(5) by (metis of_int_le_iff of_int_numeral of_int_power)
  have "2 ^ 53 \<le> of_int t + rnd (of_int e * of_int r)"
  proof (cases "e * r \<le> 2 ^ 53")
    case True
    then have "rnd (of_int (e * r)) = of_int (e * r)"
      using assms by (simp only: rnd_of_int mult_nonneg_nonneg)
    moreover from True False have "2 ^ 53 \<le> t + e * r" by linarith
    then have "of_int (2 ^ 53) \<le> (of_int (t + e * r) :: rat)" by (simp only: of_int_le_iff)
    ultimately show ?thesis by simp
  next
    case False
    then have "of_int (2 ^ 53) \<le> (of_int (e * r) :: rat)" by (simp only: of_int_le_iff)
    then have "2 ^ 53 \<le> rnd (of_int e * of_int r)" by (intro rnd_ge_limit) simp
    with assms show ?thesis by simp
  qed
  then have "2 ^ 53 \<le> rnd (of_int t + rnd (of_int e * of_int r))" by (rule rnd_ge_limit)
  moreover from False assms have "c \<le> t + e * r"
    using mult_nonneg_nonneg [of e r] by linarith
  ultimately show ?thesis using c by (simp add: min_absorb1)
qed

end

interpretation f64: rounding f64
  by unfold_locales (fact f64_mono f64_of_int f64_err)+

section \<open>Printing with a fixed number of decimals\<close>

text \<open>
  The verb \<open>%.pf\<close> (and \<open>strconv.FormatFloat(x, 'f', p, 64)\<close>) prints the decimal with \<open>p\<close>
  digits nearest to the exact binary value, ties to even.
\<close>

definition pad_left :: "nat \<Rightarrow> string \<Rightarrow> string" where
  "pad_left n s = replicate (n - length s) (CHR ''0'') @ s"

definition FormatFixed :: "nat \<Rightarrow> rat \<Rightarrow> string" where
  "FormatFixed p x =
     (let n = nat (round_even (\<bar>x\<bar> * 10 ^ p));
          whole = digits_base 10 (n div 10 ^ p);
          frac = pad_left p (digits_base 10 (n mod 10 ^ p))
      in (if x < 0 then ''-'' else []) @ whole @ (if p = 0 then [] else CHR ''.'' # frac))"

end
