(* ===== verification/Http_Response.thy ===== *)
theory Http_Response
  imports Gateway_Config "HOL-Library.AList"
begin

text \<open>
  The parts of \<open>net/http\<close> the gateway writes its responses with, and the gateway's own
  \<open>statusRecorder\<close> and \<open>writeJSON\<close> (\<open>internal/gateway/handler.go\<close>): header maps with canonical
  keys, and a server response with its live header map, the header frozen with the final status,
  informational responses, the declared content length and the rule for statuses without a body.  The
  connection to the client is assumed to take what is written.  The locale \<open>response_writer\<close> is the
  interface \<open>http.ResponseWriter\<close> as \<open>writeJSON\<close> uses it; both implementations are
  interpretations.
\<close>

section \<open>Headers\<close>

type_synonym headers = "(gostring \<times> gostring list) list"

definition to_upper :: "char \<Rightarrow> char" where
  "to_upper c = (if 97 \<le> (of_char c :: nat) \<and> (of_char c :: nat) \<le> 122 then char_of ((of_char c :: nat) - 32) else c)"

definition to_lower :: "char \<Rightarrow> char" where
  "to_lower c = (if 65 \<le> (of_char c :: nat) \<and> (of_char c :: nat) \<le> 90 then char_of ((of_char c :: nat) + 32) else c)"

text \<open>\<open>CanonicalHeaderKey\<close> on a valid field name.\<close>

fun canonical_from :: "bool \<Rightarrow> gostring \<Rightarrow> gostring" where
  "canonical_from upper [] = []"
| "canonical_from upper (c # s) = (if upper then to_upper c else to_lower c) # canonical_from (c = CHR ''-'') s"

definition canonical :: "gostring \<Rightarrow> gostring" where
  "canonical k = canonical_from True k"

definition hvalues :: "headers \<Rightarrow> gostring \<Rightarrow> gostring list" where
  "hvalues h k = (case map_of h k of None \<Rightarrow> [] | Some vs \<Rightarrow> vs)"

definition hget :: "gostring \<Rightarrow> headers \<Rightarrow> gostring" where
  "hget k h = (case hvalues h (canonical k) of [] \<Rightarrow> [] | v # vs \<Rightarrow> v)"

definition hset :: "gostring \<Rightarrow> gostring \<Rightarrow> headers \<Rightarrow> headers" where
  "hset k v h = AList.update (canonical k) [v] h"

definition hadd :: "gostring \<Rightarrow> gostring \<Rightarrow> headers \<Rightarrow> headers" where
  "hadd k v h = AList.update (canonical k) (hvalues h (canonical k) @ [v]) h"

definition hdel :: "gostring \<Rightarrow> headers \<Rightarrow> headers" where
  "hdel k h = AList.delete (canonical k) h"

text \<open>\<open>copyHeader\<close> of the reverse proxy appends every value.\<close>

definition hcopy :: "headers \<Rightarrow> headers \<Rightarrow> headers" where
  "hcopy src dst = fold (\<lambda>(k, vs). fold (hadd k) vs) src dst"

section \<open>The server's response\<close>

record response =
  rw_head :: bool
  rw_header :: headers
  rw_early :: "int list"
  rw_status :: "int option"
  rw_sent :: headers
  rw_length :: "int option"
  rw_written :: int
  rw_body :: gostring

definition new_response :: "bool \<Rightarrow> response" where
  "new_response is_head = \<lparr>rw_head = is_head, rw_header = [], rw_early = [], rw_status = None, rw_sent = [],
     rw_length = None, rw_written = 0, rw_body = []\<rparr>"

definition declared_length :: "headers \<Rightarrow> int option" where
  "declared_length h =
     (let cl = hget ''Content-Length'' h in
      if cl = [] then None
      else case Atoi cl of Inl err \<Rightarrow> None | Inr n \<Rightarrow> if n \<ge> 0 then Some n else None)"

text \<open>\<open>WriteHeader\<close>; the flag is the panic on a code outside 100 to 999.\<close>

definition WriteHeader :: "int \<Rightarrow> response \<Rightarrow> bool \<times> response" where
  "WriteHeader code w =
     (if rw_status w \<noteq> None then (False, w)
      else if code < 100 \<or> code > 999 then (True, w)
      else if code \<le> 199 \<and> code \<noteq> 101 then (False, w\<lparr>rw_early := rw_early w @ [code]\<rparr>)
      else (False, w\<lparr>rw_status := Some code, rw_sent := rw_header w, rw_length := declared_length (rw_header w)\<rparr>))"

definition bodyAllowedForStatus :: "int \<Rightarrow> bool" where
  "bodyAllowedForStatus status \<longleftrightarrow> \<not> (100 \<le> status \<and> status \<le> 199) \<and> status \<noteq> 204 \<and> status \<noteq> 304"

text \<open>\<open>Write\<close> returns the number of bytes taken; fewer than offered is an error.\<close>

definition Write :: "gostring \<Rightarrow> response \<Rightarrow> int \<times> response" where
  "Write payload w =
     (let w1 = (if rw_status w = None then snd (WriteHeader 200 w) else w);
          w2 = w1\<lparr>rw_written := rw_written w1 + int (length payload)\<rparr>
      in if payload = [] then (0, w1)
         else if \<not> bodyAllowedForStatus (the (rw_status w1)) then (0, w1)
         else if (case rw_length w1 of None \<Rightarrow> False | Some n \<Rightarrow> rw_written w2 > n) then (0, w2)
         else (int (length payload), w2\<lparr>rw_body := (if rw_head w2 then rw_body w2 else rw_body w2 @ payload)\<rparr>))"

section \<open>statusRecorder\<close>

record statusRecorder =
  inner :: response
  status :: int
  bytes :: int
  wroteHeader :: bool

definition new_recorder :: "response \<Rightarrow> statusRecorder" where
  "new_recorder w = \<lparr>inner = w, status = 200, bytes = 0, wroteHeader = False\<rparr>"

definition recorder_WriteHeader :: "int \<Rightarrow> statusRecorder \<Rightarrow> bool \<times> statusRecorder" where
  "recorder_WriteHeader code r =
     (if wroteHeader r then (False, r)
      else let (panic, w) = WriteHeader code (inner r)
        in (panic, r\<lparr>wroteHeader := True, status := code, inner := w\<rparr>))"

definition recorder_Write :: "gostring \<Rightarrow> statusRecorder \<Rightarrow> int \<times> statusRecorder" where
  "recorder_Write payload r =
     (let r1 = (if \<not> wroteHeader r then snd (recorder_WriteHeader 200 r) else r);
          (n, w) = Write payload (inner r1)
      in (n, r1\<lparr>inner := w, bytes := bytes r1 + n\<rparr>))"

definition recorder_header :: "(headers \<Rightarrow> headers) \<Rightarrow> statusRecorder \<Rightarrow> statusRecorder" where
  "recorder_header f r = r\<lparr>inner := inner r\<lparr>rw_header := f (rw_header (inner r))\<rparr>\<rparr>"

text \<open>\<open>Flush\<close> goes straight to the server's response, which sends status 200 where none was written.\<close>

definition response_Flush :: "response \<Rightarrow> response" where
  "response_Flush w = (if rw_status w = None then snd (WriteHeader 200 w) else w)"

definition recorder_Flush :: "statusRecorder \<Rightarrow> statusRecorder" where
  "recorder_Flush r = r\<lparr>inner := response_Flush (inner r)\<rparr>"

definition Unwrap :: "statusRecorder \<Rightarrow> response" where
  "Unwrap r = inner r"

section \<open>writeJSON\<close>

text \<open>The encoder's escapes for ASCII text; other bytes are copied, as for valid UTF-8.\<close>

definition json_escape :: "char \<Rightarrow> string" where
  "json_escape c =
     (if c = CHR 0x22 \<or> c = CHR 0x5C then [CHR 0x5C, c]
      else if c = CHR 0x08 then [CHR 0x5C, CHR ''b'']
      else if c = CHR 0x0C then [CHR 0x5C, CHR ''f'']
      else if c = CHR 0x0A then [CHR 0x5C, CHR ''n'']
      else if c = CHR 0x0D then [CHR 0x5C, CHR ''r'']
      else if c = CHR 0x09 then [CHR 0x5C, CHR ''t'']
      else if (of_char c :: nat) < 32 \<or> c \<in> set ''<>&'' then [CHR 0x5C] @ ''u00'' @ hex_encode [of_char c]
      else [c])"

definition json_string :: "gostring \<Rightarrow> string" where
  "json_string s = [CHR 0x22] @ concat (map json_escape s) @ [CHR 0x22]"

fun json_fields :: "(gostring \<times> gostring) list \<Rightarrow> string" where
  "json_fields [] = []"
| "json_fields [(k, v)] = json_string k @ '':'' @ json_string v"
| "json_fields ((k, v) # fs) = json_string k @ '':'' @ json_string v @ '','' @ json_fields fs"

text \<open>\<open>Encode\<close> of a map of strings, its keys in order, with the newline it adds.\<close>

definition json_object :: "(gostring \<times> gostring) list \<Rightarrow> string" where
  "json_object fs = ''{'' @ json_fields fs @ ''}'' @ [CHR 0x0A]"

definition writeJSON ::
  "((headers \<Rightarrow> headers) \<Rightarrow> 'w \<Rightarrow> 'w) \<Rightarrow> (int \<Rightarrow> 'w \<Rightarrow> bool \<times> 'w) \<Rightarrow> (gostring \<Rightarrow> 'w \<Rightarrow> int \<times> 'w)
    \<Rightarrow> int \<Rightarrow> (gostring \<times> gostring) list \<Rightarrow> 'w \<Rightarrow> 'w"
where
  "writeJSON header write_header write' code payload w =
     snd (write' (json_object payload) (snd (write_header code (header (hset ''Content-Type'' ''application/json'') w))))"

definition response_header :: "(headers \<Rightarrow> headers) \<Rightarrow> response \<Rightarrow> response" where
  "response_header f w = w\<lparr>rw_header := f (rw_header w)\<rparr>"

abbreviation respondJSON :: "int \<Rightarrow> (gostring \<times> gostring) list \<Rightarrow> response \<Rightarrow> response" where
  "respondJSON \<equiv> writeJSON response_header WriteHeader Write"

abbreviation recordJSON :: "int \<Rightarrow> (gostring \<times> gostring) list \<Rightarrow> statusRecorder \<Rightarrow> statusRecorder" where
  "recordJSON \<equiv> writeJSON recorder_header recorder_WriteHeader recorder_Write"

section \<open>Facts on headers and writers\<close>

named_theorems http "facts on header maps and response writers"

lemma hvalues_update: "hvalues (AList.update k vs h) k' = (if k' = k then vs else hvalues h k')"
  by (simp add: hvalues_def AList.update_conv')

lemma hget_hset [http]: "hget k (hset k' v h) = (if canonical k = canonical k' then v else hget k h)"
  by (simp add: hget_def hset_def hvalues_update)

lemma hvalues_hadd: "hvalues (hadd k v h) k' = hvalues h k' @ (if k' = canonical k then [v] else [])"
  by (simp add: hadd_def hvalues_update)

lemma hvalues_fold_hadd: "hvalues (fold (hadd k) vs h) k' = hvalues h k' @ (if k' = canonical k then vs else [])"
  by (induction vs arbitrary: h) (simp_all add: hvalues_hadd)

lemma hvalues_hcopy:
  "hvalues (hcopy src dst) k' = hvalues dst k' @ concat (map (\<lambda>(k, vs). if k' = canonical k then vs else []) src)"
  by (induction src arbitrary: dst) (auto simp: hcopy_def hvalues_fold_hadd)

lemma hget_hdel: "hget k (hdel k' h) = (if canonical k = canonical k' then [] else hget k h)"
  by (simp add: hget_def hdel_def hvalues_def AList.delete_conv')

lemma response_header_fields [http]:
  "rw_header (response_header f w) = f (rw_header w)" "rw_status (response_header f w) = rw_status w"
  "rw_body (response_header f w) = rw_body w" "rw_head (response_header f w) = rw_head w"
  "rw_sent (response_header f w) = rw_sent w" "rw_length (response_header f w) = rw_length w"
  "rw_early (response_header f w) = rw_early w" "rw_written (response_header f w) = rw_written w"
  by (simp_all add: response_header_def)

lemma declared_length_hset [http]:
  "canonical k \<noteq> canonical ''Content-Length'' \<Longrightarrow> declared_length (hset k v h) = declared_length h"
  by (simp add: declared_length_def hget_hset)

lemma WriteHeader_final:
  "rw_status w = None \<Longrightarrow> 200 \<le> code \<Longrightarrow> code \<le> 999 \<Longrightarrow>
     WriteHeader code w = (False, w\<lparr>rw_status := Some code, rw_sent := rw_header w,
       rw_length := declared_length (rw_header w)\<rparr>)"
  by (simp add: WriteHeader_def)

lemma WriteHeader_keeps:
  "rw_status w \<noteq> None \<Longrightarrow> snd (WriteHeader code w) = w"
  by (simp add: WriteHeader_def)

lemma Write_status: "rw_status w = Some c \<Longrightarrow> rw_status (snd (Write p w)) = Some c \<and> rw_sent (snd (Write p w)) = rw_sent w"
  by (simp add: Write_def Let_def split: option.splits)

locale response_writer =
  fixes header :: "(headers \<Rightarrow> headers) \<Rightarrow> 'w \<Rightarrow> 'w"
    and write_header :: "int \<Rightarrow> 'w \<Rightarrow> bool \<times> 'w"
    and write' :: "gostring \<Rightarrow> 'w \<Rightarrow> int \<times> 'w"
    and view :: "'w \<Rightarrow> response"
    and untouched :: "'w \<Rightarrow> bool"
  assumes view_header: "view (header f w) = response_header f (view w)"
    and untouched_header: "untouched w \<Longrightarrow> untouched (header f w)"
    and untouched_status: "untouched w \<Longrightarrow> rw_status (view w) = None"
    and view_write_header: "untouched w \<Longrightarrow> view (snd (write_header c w)) = snd (WriteHeader c (view w))"
    and view_write: "rw_status (view w) \<noteq> None \<Longrightarrow> view (snd (write' p w)) = snd (Write p (view w))"
begin

text \<open>On a writer that has sent nothing, \<open>writeJSON\<close> is a complete response: status, type and body.\<close>

lemma json_answer:
  assumes "untouched w" and "200 \<le> code" and "code \<le> 999" and "bodyAllowedForStatus code"
    and "declared_length (rw_header (view w)) = None"
  shows "rw_status (view (writeJSON header write_header write' code payload w)) = Some code"
    and "rw_sent (view (writeJSON header write_header write' code payload w))
      = hset ''Content-Type'' ''application/json'' (rw_header (view w))"
    and "rw_body (view (writeJSON header write_header write' code payload w))
      = (if rw_head (view w) then rw_body (view w) else rw_body (view w) @ json_object payload)"
proof -
  let ?w1 = "header (hset ''Content-Type'' ''application/json'') w"
  have u: "untouched ?w1" using assms(1) by (rule untouched_header)
  have len: "declared_length (rw_header (view ?w1)) = None"
    using assms(5) by (simp add: view_header http canonical_def to_upper_def to_lower_def)
  have "view (snd (write_header code ?w1)) = (view ?w1)\<lparr>rw_status := Some code, rw_sent := rw_header (view ?w1),
      rw_length := None\<rparr>"
    using WriteHeader_final [OF untouched_status [OF u] assms(2,3)] len by (simp add: view_write_header [OF u])
  then have v: "view (writeJSON header write_header write' code payload w)
      = snd (Write (json_object payload) ((view ?w1)\<lparr>rw_status := Some code, rw_sent := rw_header (view ?w1),
          rw_length := None\<rparr>))"
    by (simp add: writeJSON_def view_write)
  show "rw_status (view (writeJSON header write_header write' code payload w)) = Some code"
    and "rw_sent (view (writeJSON header write_header write' code payload w))
      = hset ''Content-Type'' ''application/json'' (rw_header (view w))"
    and "rw_body (view (writeJSON header write_header write' code payload w))
      = (if rw_head (view w) then rw_body (view w) else rw_body (view w) @ json_object payload)"
    unfolding v using assms(4) by (simp_all add: Write_def json_object_def view_header response_header_fields Let_def)
qed

end

interpretation server: response_writer response_header WriteHeader Write "\<lambda>w. w" "\<lambda>w. rw_status w = None"
  by unfold_locales (simp_all add: http)

definition untouched_recorder :: "statusRecorder \<Rightarrow> bool" where
  "untouched_recorder r \<longleftrightarrow> \<not> wroteHeader r \<and> rw_status (inner r) = None"

interpretation recorder: response_writer recorder_header recorder_WriteHeader recorder_Write inner untouched_recorder
proof
  fix f and r :: statusRecorder and c and p
  show "inner (recorder_header f r) = response_header f (inner r)"
    by (simp add: recorder_header_def response_header_def)
  show "untouched_recorder r \<Longrightarrow> untouched_recorder (recorder_header f r)"
    by (simp add: untouched_recorder_def recorder_header_def)
  show "untouched_recorder r \<Longrightarrow> rw_status (inner r) = None"
    by (simp add: untouched_recorder_def)
  show "untouched_recorder r \<Longrightarrow> inner (snd (recorder_WriteHeader c r)) = snd (WriteHeader c (inner r))"
    by (simp add: untouched_recorder_def recorder_WriteHeader_def split: prod.splits)
  show "rw_status (inner r) \<noteq> None \<Longrightarrow> inner (snd (recorder_Write p r)) = snd (Write p (inner r))"
    by (auto simp: recorder_Write_def recorder_WriteHeader_def WriteHeader_def Let_def case_prod_unfold)
qed

section \<open>The recorder tells the truth\<close>

text \<open>The recorder's view agrees with what the server's response holds; its status is at most \<open>N\<close>; \<open>b\<close> is a HEAD request.\<close>

definition recorder_ok :: "bool \<Rightarrow> int \<Rightarrow> statusRecorder \<Rightarrow> bool" where
  "recorder_ok b N r \<longleftrightarrow> 503 \<le> N \<and> N \<le> 999 \<and> rw_head (inner r) = b
     \<and> (if wroteHeader r then rw_status (inner r) = Some (status r) \<and> 200 \<le> status r \<and> status r \<le> N
        else rw_status (inner r) = None)
     \<and> 0 \<le> bytes r \<and> (\<not> rw_head (inner r) \<longrightarrow> bytes r = int (length (rw_body (inner r))))"

lemma recorder_ok_header: "recorder_ok b N r \<Longrightarrow> recorder_ok b N (recorder_header f r)"
  by (simp add: recorder_ok_def recorder_header_def)

lemma recorder_ok_WriteHeader:
  assumes "recorder_ok b N r" and "200 \<le> code" and "code \<le> N"
  shows "\<not> fst (recorder_WriteHeader code r) \<and> recorder_ok b N (snd (recorder_WriteHeader code r))
    \<and> wroteHeader (snd (recorder_WriteHeader code r))"
  using assms by (simp add: recorder_ok_def recorder_WriteHeader_def WriteHeader_final split: prod.splits)

lemma Write_facts:
  assumes "rw_status w = Some c" and "Write p w = (n, w')"
  shows "rw_status w' = Some c" and "rw_head w' = rw_head w" and "0 \<le> n"
    and "\<not> rw_head w \<Longrightarrow> int (length (rw_body w')) = int (length (rw_body w)) + n"
  using assms by (auto simp: Write_def Let_def split: if_splits option.splits)

lemma recorder_ok_Write:
  assumes "recorder_ok b N r"
  shows "recorder_ok b N (snd (recorder_Write p r)) \<and> wroteHeader (snd (recorder_Write p r))
    \<and> (wroteHeader r \<longrightarrow> status (snd (recorder_Write p r)) = status r)"
proof -
  define q where "q = (if \<not> wroteHeader r then snd (recorder_WriteHeader 200 r) else r)"
  have "200 \<le> N" using assms by (simp add: recorder_ok_def)
  then have q: "recorder_ok b N q" "wroteHeader q" "wroteHeader r \<longrightarrow> q = r"
    using assms recorder_ok_WriteHeader [OF assms, of 200] by (auto simp: q_def)
  obtain n w where w: "Write p (inner q) = (n, w)" by fastforce
  have "rw_status (inner q) = Some (status q)" using q by (simp add: recorder_ok_def)
  note facts = Write_facts [OF this w]
  have "recorder_Write p r = (n, q\<lparr>inner := w, bytes := bytes q + n\<rparr>)"
    by (simp add: recorder_Write_def q_def [symmetric] w)
  then show ?thesis using q facts by (auto simp: recorder_ok_def)
qed

lemma recorder_ok_writeJSON:
  assumes "recorder_ok b N r" and "200 \<le> code" and "code \<le> N"
  shows "recorder_ok b N (recordJSON code payload r) \<and> wroteHeader (recordJSON code payload r)"
  unfolding writeJSON_def
  using recorder_ok_Write [OF recorder_ok_WriteHeader [OF recorder_ok_header [OF assms(1)] assms(2,3),
    THEN conjunct2, THEN conjunct1]]
  by blast

end
