(* ===== verification/Crypto_Encoding.thy ===== *)
theory Crypto_Encoding
  imports Gateway_Prelude
begin

text \<open>
  The cryptographic and encoding functions of Go's standard library that the gateway calls:
  \<open>crypto/sha256\<close> (FIPS 180-4), \<open>crypto/hmac\<close> over it (FIPS 198-1) and
  \<open>base64.RawURLEncoding\<close> (RFC 4648, section 5, without padding).  Messages and digests are byte
  strings, so \<^typ>\<open>string\<close>.  The lemmas give the lengths the database schema and the key format
  rely on, and that base64 loses nothing.
\<close>

unbundle bit_operations_syntax

type_synonym u32 = "32 word"

section \<open>SHA-256\<close>

text \<open>
  The constants are what the standard says they are: the first 32 bits of the fractional parts of the
  cube roots of the first 64 primes, and of the square roots of the first eight.
\<close>

fun root_below :: "nat \<Rightarrow> int \<Rightarrow> nat \<Rightarrow> int \<Rightarrow> int" where
  "root_below k x 0 acc = acc"
| "root_below k x (Suc b) acc = root_below k x b (if (acc + 2 ^ b) ^ k \<le> x then acc + 2 ^ b else acc)"

definition root_fraction :: "nat \<Rightarrow> int \<Rightarrow> u32" where
  "root_fraction k p = of_int (root_below k (p * 2 ^ (32 * k)) 36 0)"

definition first_primes :: "int list" where
  "first_primes =
    [2, 3, 5, 7, 11, 13, 17, 19, 23, 29, 31, 37, 41, 43, 47, 53, 59, 61, 67, 71, 73, 79, 83, 89, 97, 101, 103, 107,
     109, 113, 127, 131, 137, 139, 149, 151, 157, 163, 167, 173, 179, 181, 191, 193, 197, 199, 211, 223, 227, 229,
     233, 239, 241, 251, 257, 263, 269, 271, 277, 281, 283, 293, 307, 311]"

definition sha_constants :: "u32 list" where
  "sha_constants = map (root_fraction 3) first_primes"

record sha_state =
  shA :: u32  shB :: u32  shC :: u32  shD :: u32  shE :: u32  shF :: u32  shG :: u32  shH :: u32

definition sha_initial :: sha_state where
  "sha_initial = \<lparr>shA = root_fraction 2 2, shB = root_fraction 2 3, shC = root_fraction 2 5, shD = root_fraction 2 7,
     shE = root_fraction 2 11, shF = root_fraction 2 13, shG = root_fraction 2 17, shH = root_fraction 2 19\<rparr>"

definition rotr :: "nat \<Rightarrow> u32 \<Rightarrow> u32" where
  "rotr n w = (drop_bit n w) OR (push_bit (32 - n) w)"

fun big_endian :: "nat \<Rightarrow> int \<Rightarrow> char list" where
  "big_endian 0 n = []"
| "big_endian (Suc k) n = big_endian k (n div 256) @ [char_of (n mod 256)]"

definition sha_pad :: "char list \<Rightarrow> char list" where
  "sha_pad m = m @ [CHR 0x80] @ replicate ((119 - length m mod 64) mod 64) (CHR 0x00)
     @ big_endian 8 (8 * int (length m))"

fun word_blocks :: "char list \<Rightarrow> u32 list" where
  "word_blocks (a # b # c # d # m) =
     (((of_char a * 256 + of_char b) * 256 + of_char c) * 256 + of_char d) # word_blocks m"
| "word_blocks _ = []"

text \<open>The message schedule, kept latest word first.\<close>

fun sha_extend :: "nat \<Rightarrow> u32 list \<Rightarrow> u32 list" where
  "sha_extend 0 ws = ws"
| "sha_extend (Suc n) ws =
     (let w2 = ws ! 1; w7 = ws ! 6; w15 = ws ! 14; w16 = ws ! 15;
          s0 = rotr 7 w15 XOR rotr 18 w15 XOR drop_bit 3 w15;
          s1 = rotr 17 w2 XOR rotr 19 w2 XOR drop_bit 10 w2
      in sha_extend n ((w16 + s0 + w7 + s1) # ws))"

definition sha_round :: "u32 \<times> u32 \<Rightarrow> sha_state \<Rightarrow> sha_state" where
  "sha_round kw s =
     (let e1 = rotr 6 (shE s) XOR rotr 11 (shE s) XOR rotr 25 (shE s);
          ch = (shE s AND shF s) XOR (NOT (shE s) AND shG s);
          t1 = shH s + e1 + ch + fst kw + snd kw;
          e0 = rotr 2 (shA s) XOR rotr 13 (shA s) XOR rotr 22 (shA s);
          maj = (shA s AND shB s) XOR (shA s AND shC s) XOR (shB s AND shC s)
      in \<lparr>shA = t1 + (e0 + maj), shB = shA s, shC = shB s, shD = shC s, shE = shD s + t1,
          shF = shE s, shG = shF s, shH = shG s\<rparr>)"

definition sha_block :: "u32 list \<Rightarrow> sha_state \<Rightarrow> sha_state" where
  "sha_block ws s =
     (let t = fold sha_round (zip sha_constants (rev (sha_extend 48 (rev ws)))) s
      in \<lparr>shA = shA s + shA t, shB = shB s + shB t, shC = shC s + shC t, shD = shD s + shD t,
          shE = shE s + shE t, shF = shF s + shF t, shG = shG s + shG t, shH = shH s + shH t\<rparr>)"

function sha_blocks :: "u32 list \<Rightarrow> sha_state \<Rightarrow> sha_state" where
  "sha_blocks ws s = (if length ws < 16 then s else sha_blocks (drop 16 ws) (sha_block (take 16 ws) s))"
  by pat_completeness auto
termination by (relation "measure (length \<circ> fst)") auto

declare sha_blocks.simps [simp del]

definition sha_output :: "sha_state \<Rightarrow> char list" where
  "sha_output s = concat (map (\<lambda>w. big_endian 4 (uint w))
     [shA s, shB s, shC s, shD s, shE s, shF s, shG s, shH s])"

definition sha256 :: "char list \<Rightarrow> char list" where
  "sha256 m = sha_output (sha_blocks (word_blocks (sha_pad m)) sha_initial)"

lemma length_big_endian [simp]: "length (big_endian k n) = k"
  by (induction k arbitrary: n) simp_all

lemma length_sha256 [simp]: "length (sha256 m) = 32"
  by (simp add: sha256_def sha_output_def)

text \<open>The padded message is a whole number of 64-byte blocks.\<close>

lemma length_sha_pad: "64 dvd length (sha_pad m)"
proof -
  define q where "q = length m div 64"
  define r where "r = length m mod 64"
  have r: "r < 64" and len: "length m = 64 * q + r" by (simp_all add: q_def r_def)
  have "64 dvd r + (119 - r) mod 64 + 9"
  proof (cases "r < 56")
    case True
    then have "(119 - r) mod 64 = 55 - r" by (simp add: mod_if)
    then show ?thesis using True by simp
  next
    case False
    then have "(119 - r) mod 64 = 119 - r" by simp
    then show ?thesis using r by simp
  qed
  then have "64 dvd 64 * q + (r + (119 - r) mod 64 + 9)" by (rule dvd_add [OF dvd_triv_left])
  then show ?thesis by (simp add: sha_pad_def len r ac_simps)
qed

section \<open>HMAC\<close>

definition hmac_key :: "char list \<Rightarrow> char list" where
  "hmac_key key = (let k = (if length key > 64 then sha256 key else key)
     in k @ replicate (64 - length k) (CHR 0x00))"

definition xor_byte :: "8 word \<Rightarrow> char \<Rightarrow> char" where
  "xor_byte p c = char_of (uint (p XOR of_char c))"

definition hmac_sha256 :: "char list \<Rightarrow> char list \<Rightarrow> char list" where
  "hmac_sha256 key m =
     (let k = hmac_key key
      in sha256 (map (xor_byte 0x5c) k @ sha256 (map (xor_byte 0x36) k @ m)))"

lemma length_hmac_sha256 [simp]: "length (hmac_sha256 key m) = 32"
  by (simp add: hmac_sha256_def Let_def)

lemma length_hmac_key: "length (hmac_key key) = 64"
  by (simp add: hmac_key_def Let_def)

section \<open>Base64\<close>

definition b64_alphabet :: string where
  "b64_alphabet = ''ABCDEFGHIJKLMNOPQRSTUVWXYZabcdefghijklmnopqrstuvwxyz0123456789-_''"

text \<open>Three bytes are four sextets; the last one or two bytes are two or three.\<close>

fun sextets :: "nat list \<Rightarrow> nat list" where
  "sextets (x # y # z # bs) =
     x div 4 # (x mod 4 * 16 + y div 16) # (y mod 16 * 4 + z div 64) # z mod 64 # sextets bs"
| "sextets [x, y] = [x div 4, x mod 4 * 16 + y div 16, y mod 16 * 4]"
| "sextets [x] = [x div 4, x mod 4 * 16]"
| "sextets [] = []"

fun unsextets :: "nat list \<Rightarrow> nat list" where
  "unsextets (a # b # c # d # ss) =
     (a * 4 + b div 16) # (b mod 16 * 16 + c div 4) # (c mod 4 * 64 + d) # unsextets ss"
| "unsextets [a, b, c] = [a * 4 + b div 16, b mod 16 * 16 + c div 4]"
| "unsextets [a, b] = [a * 4 + b div 16]"
| "unsextets _ = []"

definition RawURLEncoding :: "char list \<Rightarrow> string" where
  "RawURLEncoding bs = map (\<lambda>k. b64_alphabet ! k) (sextets (map of_char bs))"

lemma unsextets_sextets: "\<forall>x\<in>set bs. x < 256 \<Longrightarrow> unsextets (sextets bs) = bs"
proof (induction bs rule: sextets.induct)
  case (1 x y z bs)
  have lt: "y div 16 < 16" "z div 64 < 4" using 1(2) by auto
  have "x div 4 * 4 + (x mod 4 * 16 + y div 16) div 16 = x" using lt by simp
  moreover have "(x mod 4 * 16 + y div 16) mod 16 * 16 + (y mod 16 * 4 + z div 64) div 4 = y"
    using lt by simp
  moreover have "(y mod 16 * 4 + z div 64) mod 4 * 64 + z mod 64 = z" using lt by simp
  ultimately show ?case using 1 by simp
next
  case (2 x y)
  then have lt: "y div 16 < 16" by auto
  have "x div 4 * 4 + (x mod 4 * 16 + y div 16) div 16 = x" using lt by simp
  moreover have "(x mod 4 * 16 + y div 16) mod 16 * 16 + (y mod 16 * 4) div 4 = y" using lt by simp
  ultimately show ?case by simp
qed simp_all

lemma sextets_bound: "\<forall>x\<in>set bs. x < 256 \<Longrightarrow> \<forall>k\<in>set (sextets bs). k < 64"
  by (induction bs rule: sextets.induct) auto

lemma length_sextets: "length (sextets bs) = (4 * length bs + 2) div 3"
  by (induction bs rule: sextets.induct) auto

lemma length_RawURLEncoding: "length (RawURLEncoding bs) = (4 * length bs + 2) div 3"
  by (simp add: RawURLEncoding_def length_sextets)

lemma b64_alphabet_distinct: "distinct b64_alphabet" "length b64_alphabet = 64"
  by (simp_all add: b64_alphabet_def)

lemma RawURLEncoding_inj: "inj RawURLEncoding"
proof (rule injI)
  fix x y :: "char list"
  let ?s = "\<lambda>z :: char list. sextets (map of_char z)"
  assume "RawURLEncoding x = RawURLEncoding y"
  then have eq: "map (\<lambda>k. b64_alphabet ! k) (?s x) = map (\<lambda>k. b64_alphabet ! k) (?s y)"
    by (simp add: RawURLEncoding_def)
  have "inj_on (\<lambda>k. b64_alphabet ! k) (set (?s x) \<union> set (?s y))"
    using sextets_bound [OF bytes_lt [of x]] sextets_bound [OF bytes_lt [of y]]
    by (auto intro!: inj_onI simp: nth_eq_iff_index_eq [OF b64_alphabet_distinct(1)] b64_alphabet_distinct(2))
  with eq have "?s x = ?s y" by (rule map_inj_on)
  then have "map of_char x = (map of_char y :: nat list)"
    by (metis unsextets_sextets [OF bytes_lt])
  then show "x = y" by (rule map_injective) (simp add: inj_on_def)
qed

end
