(* ===== verification/Rate_Limiter.thy ===== *)
theory Rate_Limiter
  imports Float64 Crypto_Encoding
begin

text \<open>
  \<open>internal/ratelimit/redis.go\<close>: the Lua token-bucket script and \<open>RedisLimiter.Allow\<close>.
  Redis itself is outside the repository, so the script is the function from the replies of the
  \<open>TIME\<close> and \<open>HMGET\<close> commands to the arguments of the \<open>HSET\<close> and \<open>PEXPIRE\<close> commands and
  the script's own reply; Lua's numbers are doubles (theory \<open>Float64\<close>).  How replies depend on
  earlier writes is the predicate \<open>redis_serves\<close>.  The integer bucket \<open>bucket_step\<close> is the
  abstract specification.
\<close>

section \<open>Data\<close>

definition microToken :: int where
  "microToken = 1000000"

record Request =
  Identity :: gostring
  rlRoute :: gostring
  rlRatePerSecond :: int
  rlBurstCapacity :: int

record Decision =
  Allowed :: bool
  Limit :: int
  Remaining :: int
  ResetAt :: int
  RetryAfter :: duration

type_synonym argv = "int \<times> int \<times> int \<times> int"
type_synonym redis_time = "int \<times> int"
type_synonym bucket_reply = "rat option \<times> rat option"

text \<open>What one run of the script writes and returns.\<close>

record bucket_writes =
  hset_tokens :: rat
  hset_updated_at_ms :: rat
  pexpire_ms :: rat
  reply :: "int list"

section \<open>The script\<close>

text \<open>\<open>now_ms\<close>: \<open>(now_parts[1] * 1000) + math.floor(now_parts[2] / 1000)\<close>.\<close>

definition lua_now_ms :: "redis_time \<Rightarrow> rat" where
  "lua_now_ms now_parts =
     f64 (f64 (f64 (of_int (fst now_parts)) * 1000)
          + of_int \<lfloor>f64 (f64 (of_int (snd now_parts)) / 1000)\<rfloor>)"

text \<open>
  \<open>ARGV\<close> is capacity, refill per millisecond, cost and TTL; a field of the reply is \<open>None\<close>
  where \<open>tonumber\<close> gives \<open>nil\<close>.  Lua divides by \<open>refill_per_ms\<close>; \<open>Allow\<close> sends a
  positive one for every policy the schema admits.
\<close>

definition tokenBucketScript :: "argv \<Rightarrow> redis_time \<Rightarrow> bucket_reply \<Rightarrow> bucket_writes" where
  "tokenBucketScript ARGV now_parts bucket =
     (let now_ms = lua_now_ms now_parts;
          (a1, a2, a3, a4) = ARGV;
          capacity = f64 (of_int a1);
          refill_per_ms = f64 (of_int a2);
          cost = f64 (of_int a3);
          ttl_ms = f64 (of_int a4);
          tokens = (case bucket of
                      (Some tokens, Some updated_at_ms) \<Rightarrow>
                        let elapsed = max 0 (f64 (now_ms - updated_at_ms))
                        in min capacity (f64 (tokens + f64 (elapsed * refill_per_ms)))
                    | _ \<Rightarrow> capacity);
          allowed = (if tokens \<ge> cost then 1 else 0);
          tokens' = (if tokens \<ge> cost then f64 (tokens - cost) else tokens);
          retry_ms = (if allowed = 0 then \<lceil>f64 (f64 (cost - tokens') / refill_per_ms)\<rceil> else 0);
          full_ms = \<lceil>f64 (f64 (capacity - tokens') / refill_per_ms)\<rceil>
      in \<lparr>hset_tokens = of_int \<lfloor>tokens'\<rfloor>, hset_updated_at_ms = now_ms, pexpire_ms = ttl_ms,
          reply = [allowed, \<lfloor>tokens'\<rfloor>, retry_ms, full_ms]\<rparr>)"

section \<open>RedisLimiter\<close>

record RedisLimiter =
  client_present :: bool
  limiter_prefix :: gostring

definition NewRedisLimiter :: "bool \<Rightarrow> gostring \<Rightarrow> RedisLimiter" where
  "NewRedisLimiter client pfx = \<lparr>client_present = client, limiter_prefix = pfx\<rparr>"

text \<open>
  \<open>run\<close> executes the script at a key with its arguments
  (an error of the client, or the reply as an \<open>Int64Slice\<close>) and \<open>now\<close> is the gateway's clock.
\<close>

definition bucket_key :: "gostring \<Rightarrow> Request \<Rightarrow> gostring" where
  "bucket_key pfx request =
     pfx @ '':'' @ hex_encode (map of_char (take 16 (sha256 (Identity request @ [CHR 0x00] @ rlRoute request))))"

definition policy_argv :: "Request \<Rightarrow> argv" where
  "policy_argv request =
     (wrap64 (rlBurstCapacity request * microToken),
      wrap64 (rlRatePerSecond request * (microToken div 1000)),
      microToken,
      wrap64 (wrap64 (wrap64 (rlBurstCapacity request * 1000) sdiv rlRatePerSecond request) * 2 + 1000))"

definition Allow ::
  "(gostring \<Rightarrow> argv \<Rightarrow> int list result) \<Rightarrow> int \<Rightarrow> RedisLimiter \<Rightarrow> Request \<Rightarrow> Decision result"
where
  "Allow run now l request =
     (if \<not> client_present l then Inl ''redis client is nil''
      else if Identity request = [] \<or> rlRoute request = []
        then Inl ''rate-limit identity and route are required''
      else if rlRatePerSecond request \<le> 0 \<or> rlBurstCapacity request \<le> 0
        then Inl ''rate-limit policy must be positive''
      else case run (bucket_key (limiter_prefix l) request) (policy_argv request) of
        Inl e \<Rightarrow> Inl (''execute token-bucket script: '' @ e)
      | Inr result \<Rightarrow>
          if length result \<noteq> 4
          then Inl (''unexpected token-bucket result length: '' @ Itoa (int (length result)))
          else Inr \<lparr>Allowed = (result ! 0 = 1),
                    Limit = rlBurstCapacity request,
                    Remaining = result ! 1 sdiv microToken,
                    ResetAt = now + wrap64 (result ! 3 * time_Millisecond),
                    RetryAfter = wrap64 (result ! 2 * time_Millisecond)\<rparr>)"

definition RedisLimiter_Ping :: "(unit \<Rightarrow> unit result) \<Rightarrow> RedisLimiter \<Rightarrow> unit result" where
  "RedisLimiter_Ping ping l = (if \<not> client_present l then Inl ''redis client is nil'' else ping ())"

section \<open>The integer bucket\<close>

type_synonym bucket = "(int \<times> int) option"

definition ceil_div :: "int \<Rightarrow> int \<Rightarrow> int" where
  "ceil_div a b = - (- a div b)"

definition redis_ms :: "redis_time \<Rightarrow> int" where
  "redis_ms t = fst t * 1000 + snd t div 1000"

definition bucket_refill :: "int \<Rightarrow> int \<Rightarrow> int \<Rightarrow> bucket \<Rightarrow> int" where
  "bucket_refill cap r now b =
     (case b of None \<Rightarrow> cap | Some (tokens, updated) \<Rightarrow> min cap (tokens + max 0 (now - updated) * r))"

definition bucket_step :: "int \<Rightarrow> int \<Rightarrow> int \<Rightarrow> int \<Rightarrow> bucket \<Rightarrow> bool \<times> int" where
  "bucket_step cap r cost now b =
     (let t = bucket_refill cap r now b in if cost \<le> t then (True, t - cost) else (False, t))"

definition valid_time :: "redis_time \<Rightarrow> bool" where
  "valid_time t \<longleftrightarrow> 0 \<le> fst t \<and> fst t < 2 ^ 43 \<and> 0 \<le> snd t \<and> snd t < 1000000"

definition valid_bucket :: "int \<Rightarrow> bucket \<Rightarrow> bool" where
  "valid_bucket cap b = (case b of None \<Rightarrow> True
     | Some (tokens, updated) \<Rightarrow> 0 \<le> tokens \<and> tokens \<le> cap \<and> 0 \<le> updated \<and> updated \<le> 2 ^ 53)"

definition bucket_fields :: "bucket \<Rightarrow> bucket_reply" where
  "bucket_fields b = (case b of None \<Rightarrow> (None, None)
     | Some (tokens, updated) \<Rightarrow> (Some (of_int tokens), Some (of_int updated)))"

lemma ceiling_of_int_divide: "\<lceil>of_int a / of_int b :: rat\<rceil> = ceil_div a b"
  by (simp add: ceil_div_def ceiling_divide_eq_div)

lemma ceil_div_le_iff: "0 < b \<Longrightarrow> ceil_div a b \<le> n \<longleftrightarrow> a \<le> n * b"
proof -
  assume b: "0 < b"
  have "ceil_div a b \<le> n \<longleftrightarrow> (of_int a / of_int b :: rat) \<le> of_int n"
    by (simp add: ceiling_le_iff flip: ceiling_of_int_divide)
  also have "\<dots> \<longleftrightarrow> (of_int a :: rat) \<le> of_int (n * b)"
    using b by (simp add: pos_divide_le_eq)
  finally show ?thesis by (simp only: of_int_le_iff)
qed

lemma ceil_div_nonneg: "0 < b \<Longrightarrow> 0 \<le> a \<Longrightarrow> 0 \<le> ceil_div a b"
  using ceil_div_le_iff [of b a "-1"] by linarith

section \<open>The script computes the integer bucket\<close>

named_theorems bucket_simps "exactness of the script's double arithmetic"

lemma f64_nonpos: "x \<le> 0 \<Longrightarrow> f64 x \<le> 0"
proof (cases "x = 0")
  case False
  assume "x \<le> 0"
  let ?u = "2 powi (expo \<bar>x\<bar> - 52) :: rat"
  have "x / ?u \<le> of_int 0" using \<open>x \<le> 0\<close> by (simp add: divide_nonpos_pos)
  then have "round_even (x / ?u) \<le> 0" using round_even_mono round_even_of_int by metis
  then have "of_int (round_even (x / ?u)) \<le> (0 :: rat)" by simp
  with False show ?thesis by (simp add: f64_def Let_def mult_nonpos_nonneg)
qed simp

lemma f64_max_diff [bucket_simps]:
  assumes "0 \<le> b" and "0 \<le> a" and "a \<le> 2 ^ 53"
  shows "max 0 (f64 (of_int a - of_int b)) = of_int (max 0 (a - b))"
proof (cases "b \<le> a")
  case True
  then have "f64 (of_int (a - b)) = of_int (a - b)" using assms by (intro f64_of_int) auto
  with True show ?thesis by (simp add: max_def)
next
  case False
  then have "f64 (of_int a - of_int b) \<le> 0" by (intro f64_nonpos) simp
  with False show ?thesis by (simp add: max_def)
qed

lemma f64_diff [bucket_simps]:
  "0 \<le> b \<Longrightarrow> b \<le> a \<Longrightarrow> a \<le> 2 ^ 53 \<Longrightarrow> f64 (of_int a - of_int b) = of_int (a - b)"
  using f64_of_int [of "a - b"] by simp

lemma redis_ms_bounds: "valid_time t \<Longrightarrow> 0 \<le> redis_ms t \<and> redis_ms t < 2 ^ 53"
  by (auto simp: valid_time_def redis_ms_def)

lemma lua_now_ms_exact [bucket_simps]:
  assumes "valid_time t"
  shows "lua_now_ms t = of_int (redis_ms t)"
proof -
  obtain s u where t: "t = (s, u)" by (cases t)
  have s: "0 \<le> s" "s < 2 ^ 43" and u: "0 \<le> u" "u < 1000000"
    using assms by (auto simp: t valid_time_def)
  have "f64 (of_int s) = of_int s" and "f64 (of_int u) = of_int u"
    using s u by (auto intro!: f64_of_int)
  moreover have "f64 (of_int (s * 1000)) = of_int (s * 1000)"
    using s by (intro f64_of_int) auto
  moreover have "\<lfloor>f64 (of_int u / of_int 1000)\<rfloor> = u div 1000"
    using u by (intro f64.floor_quotient) auto
  moreover have "f64 (of_int (s * 1000 + u div 1000)) = of_int (s * 1000 + u div 1000)"
    using s u by (intro f64_of_int) (auto simp: pos_imp_zdiv_nonneg_iff)
  ultimately show ?thesis by (simp add: lua_now_ms_def redis_ms_def t)
qed

lemma bucket_refill_bounds:
  assumes "valid_bucket cap b" and "0 \<le> cap" and "0 \<le> r"
  shows "0 \<le> bucket_refill cap r now b" and "bucket_refill cap r now b \<le> cap"
  using assms by (auto simp: bucket_refill_def valid_bucket_def split: option.splits)

text \<open>Policies the script computes exactly: everything it divides or stores stays below \<open>2 ^ 53\<close>.\<close>

definition exact_argv :: "argv \<Rightarrow> bool" where
  "exact_argv a = (case a of (cap, r, cost, ttl) \<Rightarrow>
     0 < cap \<and> cap < 2 ^ 53 \<and> 0 < r \<and> r < 2 ^ 53 \<and> 0 < cost \<and> cost < 2 ^ 53 \<and> 0 \<le> ttl \<and> ttl < 2 ^ 53)"

lemma script_refill [bucket_simps]:
  assumes "valid_bucket cap b" and "0 \<le> cap" and "cap < 2 ^ 53" and "0 \<le> r" and "valid_time t"
  shows "(case bucket_fields b of
            (Some tokens, Some updated_at_ms) \<Rightarrow>
              min (of_int cap) (f64 (tokens + f64 (max 0 (f64 (of_int (redis_ms t) - updated_at_ms)) * of_int r)))
          | _ \<Rightarrow> of_int cap) = of_int (bucket_refill cap r (redis_ms t) b)"
proof (cases b)
  case (Some p)
  obtain tk up where p: "p = (tk, up)" by (cases p)
  have "0 \<le> tk" "0 \<le> up" using assms(1) by (auto simp: Some p valid_bucket_def)
  then show ?thesis
    using assms redis_ms_bounds [OF assms(5)]
    by (simp add: Some p bucket_fields_def bucket_refill_def f64_max_diff f64.capped_sum)
qed (simp add: bucket_fields_def bucket_refill_def)

lemma script_quotient [bucket_simps]:
  assumes "0 \<le> b" and "b \<le> a" and "a < 2 ^ 53" and "0 < r"
  shows "\<lceil>f64 (f64 (of_int a - of_int b) / of_int r)\<rceil> = ceil_div (a - b) r"
proof -
  have "\<lceil>f64 (of_int (a - b) / of_int r)\<rceil> = ceil_div (a - b) r"
    using assms f64.ceiling_quotient [of "a - b" r] by (simp add: ceiling_of_int_divide del: of_int_diff)
  with assms show ?thesis by (simp add: f64_diff)
qed

lemma script_exact:
  assumes "exact_argv (cap, r, cost, ttl)" and "valid_time t" and "valid_bucket cap b"
  shows "tokenBucketScript (cap, r, cost, ttl) t (bucket_fields b) =
    (let (ok, left) = bucket_step cap r cost (redis_ms t) b in
     \<lparr>hset_tokens = of_int left, hset_updated_at_ms = of_int (redis_ms t), pexpire_ms = of_int ttl,
      reply = [if ok then 1 else 0, left, if ok then 0 else ceil_div (cost - left) r,
               ceil_div (cap - left) r]\<rparr>)"
proof -
  have args: "f64 (of_int cap) = of_int cap" "f64 (of_int r) = of_int r"
    "f64 (of_int cost) = of_int cost" "f64 (of_int ttl) = of_int ttl"
    using assms(1) by (auto simp: exact_argv_def intro!: f64_of_int)
  let ?t = "bucket_refill cap r (redis_ms t) b"
  have t: "0 \<le> ?t" "?t \<le> cap"
    using bucket_refill_bounds [OF assms(3)] assms(1) by (auto simp: exact_argv_def)
  have refill: "(case bucket_fields b of
            (Some tokens, Some updated_at_ms) \<Rightarrow>
              min (of_int cap) (f64 (tokens + f64 (max 0 (f64 (of_int (redis_ms t) - updated_at_ms)) * of_int r)))
          | _ \<Rightarrow> of_int cap) = of_int ?t"
    using assms by (intro script_refill) (auto simp: exact_argv_def)
  show ?thesis
  proof (cases "cost \<le> ?t")
    case True
    have left: "f64 (of_int ?t - of_int cost) = of_int (?t - cost)"
      using t True assms(1) by (intro f64_diff) (auto simp: exact_argv_def)
    have "\<lceil>f64 (f64 (of_int cap - of_int (?t - cost)) / of_int r)\<rceil> = ceil_div (cap - (?t - cost)) r"
      using t True assms(1) by (intro script_quotient) (auto simp: exact_argv_def)
    with True show ?thesis
      unfolding tokenBucketScript_def Let_def prod.case args lua_now_ms_exact [OF assms(2)] refill left
      by (simp add: bucket_step_def)
  next
    case False
    have "\<lceil>f64 (f64 (of_int cost - of_int ?t) / of_int r)\<rceil> = ceil_div (cost - ?t) r"
      and "\<lceil>f64 (f64 (of_int cap - of_int ?t) / of_int r)\<rceil> = ceil_div (cap - ?t) r"
      using t False assms(1) by (auto simp: exact_argv_def intro!: script_quotient)
    with False show ?thesis
      unfolding tokenBucketScript_def Let_def prod.case args lua_now_ms_exact [OF assms(2)] refill
      by (simp add: bucket_step_def)
  qed
qed

section \<open>Policies the schema admits\<close>

text \<open>
  The \<open>INTEGER\<close> columns \<open>rate_per_second\<close> and \<open>burst_capacity\<close> with their positivity checks
  bound every policy an authenticated principal carries; no product of \<open>Allow\<close> wraps there.
\<close>

definition valid_policy :: "Request \<Rightarrow> bool" where
  "valid_policy request \<longleftrightarrow> Identity request \<noteq> [] \<and> rlRoute request \<noteq> []
     \<and> 0 < rlRatePerSecond request \<and> rlRatePerSecond request < 2 ^ 31
     \<and> 0 < rlBurstCapacity request \<and> rlBurstCapacity request < 2 ^ 31"

definition policy_ttl :: "Request \<Rightarrow> int" where
  "policy_ttl request = rlBurstCapacity request * 1000 div rlRatePerSecond request * 2 + 1000"

lemma policy_ttl_bounds:
  assumes "valid_policy request"
  shows "1000 \<le> policy_ttl request" and "policy_ttl request < 2 ^ 43"
    and "rlBurstCapacity request * 1000000 \<le> policy_ttl request * (rlRatePerSecond request * 1000)"
proof -
  let ?b = "rlBurstCapacity request" and ?r = "rlRatePerSecond request"
  let ?q = "?b * 1000 div ?r"
  have r: "0 < ?r" and b: "0 < ?b" "?b < 2 ^ 31" using assms by (auto simp: valid_policy_def)
  have q0: "0 \<le> ?q" using r b by (simp add: pos_imp_zdiv_nonneg_iff)
  have "?q \<le> ?b * 1000 div 1" using r b by (intro zdiv_mono2) auto
  with b q0 show "1000 \<le> policy_ttl request" "policy_ttl request < 2 ^ 43"
    by (auto simp: policy_ttl_def)
  have "?b * 1000 = ?q * ?r + ?b * 1000 mod ?r" by simp
  moreover have "?b * 1000 mod ?r < ?r" using r by (rule pos_mod_bound)
  ultimately have "?b * 1000 \<le> ?q * ?r + 1 * ?r" by linarith
  also have "\<dots> = (?q + 1) * ?r" by (simp add: distrib_right)
  also have "\<dots> \<le> policy_ttl request * ?r"
    using q0 r by (intro mult_right_mono) (auto simp: policy_ttl_def)
  finally have "?b * 1000 * 1000 \<le> policy_ttl request * ?r * 1000" by (rule mult_right_mono) simp
  then show "?b * 1000000 \<le> policy_ttl request * (?r * 1000)" by (simp add: mult.assoc)
qed

lemma policy_argv_valid:
  assumes "valid_policy request"
  shows "policy_argv request = (rlBurstCapacity request * 1000000, rlRatePerSecond request * 1000,
            1000000, policy_ttl request)"
    and "exact_argv (policy_argv request)"
proof -
  let ?b = "rlBurstCapacity request" and ?r = "rlRatePerSecond request"
  have r: "0 < ?r" "?r < 2 ^ 31" and b: "0 < ?b" "?b < 2 ^ 31"
    using assms by (auto simp: valid_policy_def)
  have w: "wrap64 (?b * 1000) = ?b * 1000" "wrap64 (?b * 1000000) = ?b * 1000000"
    "wrap64 (?r * 1000) = ?r * 1000"
    using r b by (auto intro!: wrap64_id simp: in_int64_def)
  have d: "?b * 1000 sdiv ?r = ?b * 1000 div ?r" using r b by (intro sdiv_nonneg) auto
  note t = policy_ttl_bounds [OF assms]
  have "wrap64 (?b * 1000 div ?r) = ?b * 1000 div ?r" "wrap64 (policy_ttl request) = policy_ttl request"
    using t by (auto intro!: wrap64_id simp: in_int64_def policy_ttl_def)
  then show eq: "policy_argv request = (?b * 1000000, ?r * 1000, 1000000, policy_ttl request)"
    using w d by (simp add: policy_argv_def microToken_def policy_ttl_def)
  show "exact_argv (policy_argv request)"
    unfolding eq using r b t by (simp add: exact_argv_def)
qed

section \<open>Sequences of calls on one bucket\<close>

text \<open>
  A call sees the server time and the bucket's fields.  Redis serves a sequence of calls when its
  clock does not go back and each call finds the fields the previous one wrote, or none at all if
  the time to live given to \<open>PEXPIRE\<close> has passed; the first call finds none.
\<close>

type_synonym observation = "redis_time \<times> bucket_reply"

definition redis_keeps :: "redis_time \<times> bucket_writes \<Rightarrow> observation \<Rightarrow> bool" where
  "redis_keeps before ob =
     (case (before, ob) of ((t0, w), (t, bucket)) \<Rightarrow>
        redis_ms t0 \<le> redis_ms t
        \<and> (bucket = (Some (hset_tokens w), Some (hset_updated_at_ms w))
           \<or> bucket = (None, None) \<and> of_int (redis_ms t0) + pexpire_ms w \<le> of_int (redis_ms t)))"

fun redis_serves :: "argv \<Rightarrow> (redis_time \<times> bucket_writes) option \<Rightarrow> observation list \<Rightarrow> bool" where
  "redis_serves a before [] = True"
| "redis_serves a before ((t, bucket) # obs) =
     (valid_time t
      \<and> (case before of None \<Rightarrow> bucket = (None, None) | Some p \<Rightarrow> redis_keeps p (t, bucket))
      \<and> redis_serves a (Some (t, tokenBucketScript a t bucket)) obs)"

definition script_grants :: "argv \<Rightarrow> observation \<Rightarrow> bool" where
  "script_grants a ob = (reply (tokenBucketScript a (fst ob) (snd ob)) ! 0 = 1)"

definition final_ms :: "redis_time \<Rightarrow> observation list \<Rightarrow> int" where
  "final_ms t obs = redis_ms (fst (last ((t, None, None) # obs)))"

lemma final_ms_simps [simp]:
  "final_ms t [] = redis_ms t"
  "final_ms t ((u, b) # obs) = final_ms u obs"
  by (cases obs; simp add: final_ms_def)+

text \<open>The bucket a call finds is the abstract one, and refilling it adds at most what time allows.\<close>

lemma redis_keeps_bucket:
  assumes "redis_keeps (t0, w) (t, bucket)" and "hset_tokens w = of_int left"
    and "hset_updated_at_ms w = of_int (redis_ms t0)" and "pexpire_ms w = of_int ttl"
    and "0 \<le> left" and "left \<le> cap" and "cap \<le> ttl * r" and "0 < r" and "valid_time t0"
  obtains b where "bucket = bucket_fields b" and "valid_bucket cap b"
    and "bucket_refill cap r (redis_ms t) b \<le> left + r * (redis_ms t - redis_ms t0)"
proof -
  have le: "redis_ms t0 \<le> redis_ms t" using assms(1) by (auto simp: redis_keeps_def)
  consider (kept) "bucket = (Some (of_int left), Some (of_int (redis_ms t0)))"
    | (expired) "bucket = (None, None)" "redis_ms t0 + ttl \<le> redis_ms t"
  proof -
    have "redis_ms t0 + ttl \<le> redis_ms t" if "of_int (redis_ms t0) + pexpire_ms w \<le> of_int (redis_ms t)"
      using that assms(4) by (simp flip: of_int_add)
    then show ?thesis using that assms(1-3) by (auto simp: redis_keeps_def)
  qed
  then show ?thesis
  proof cases
    case kept
    have "redis_ms t0 \<le> 2 ^ 53" "0 \<le> redis_ms t0" using redis_ms_bounds [OF assms(9)] by auto
    with assms kept le show ?thesis
      by (intro that [of "Some (left, redis_ms t0)"])
        (auto simp: bucket_fields_def valid_bucket_def bucket_refill_def mult.commute)
  next
    case expired
    have "ttl * r \<le> (redis_ms t - redis_ms t0) * r"
      using expired assms(8) by (intro mult_right_mono) auto
    then have "cap \<le> left + r * (redis_ms t - redis_ms t0)"
      using assms(5,7) by (simp add: mult.commute)
    with expired show ?thesis
      by (intro that [of None]) (auto simp: bucket_fields_def valid_bucket_def bucket_refill_def)
  qed
qed

lemma bucket_step_split:
  "bucket_step cap r cost now b = (ok, left) \<Longrightarrow>
     left + (if ok then cost else 0) = bucket_refill cap r now b"
  by (auto simp: bucket_step_def Let_def split: if_splits)

lemma bucket_step_bounds:
  assumes "bucket_step cap r cost now b = (ok, left)" and "valid_bucket cap b" and "0 \<le> cap" and "0 \<le> r" and "0 \<le> cost"
  shows "0 \<le> left" and "left \<le> cap" and "ok \<longleftrightarrow> cost \<le> bucket_refill cap r now b"
  using bucket_refill_bounds [OF assms(2-4), of now] assms(1,5)
  by (auto simp: bucket_step_def Let_def split: if_splits)

lemma grants_bounded_from:
  assumes "a = (cap, r, cost, ttl)" and "exact_argv a" and "cap \<le> ttl * r" and "valid_time t0"
    and "hset_tokens w = of_int left" and "hset_updated_at_ms w = of_int (redis_ms t0)"
    and "pexpire_ms w = of_int ttl" and "0 \<le> left" and "left \<le> cap"
    and "redis_serves a (Some (t0, w)) obs"
  shows "cost * int (length (filter (script_grants a) obs)) \<le> left + r * (final_ms t0 obs - redis_ms t0)"
  using assms(4-)
proof (induction obs arbitrary: t0 w left)
  case Nil
  then show ?case by simp
next
  case (Cons ob obs)
  obtain t bucket where ob: "ob = (t, bucket)" by (cases ob)
  have args: "0 \<le> cap" "0 < r" "0 \<le> cost" "exact_argv (cap, r, cost, ttl)"
    using assms(1,2) by (auto simp: exact_argv_def)
  have vt: "valid_time t" and keeps: "redis_keeps (t0, w) (t, bucket)"
    and rest: "redis_serves a (Some (t, tokenBucketScript a t bucket)) obs"
    using Cons.prems ob by auto
  obtain b where b: "bucket = bucket_fields b" "valid_bucket cap b"
    and gain: "bucket_refill cap r (redis_ms t) b \<le> left + r * (redis_ms t - redis_ms t0)"
    using redis_keeps_bucket [OF keeps Cons.prems(2-6) assms(3) args(2) Cons.prems(1)] by blast
  obtain ok left' where step: "bucket_step cap r cost (redis_ms t) b = (ok, left')"
    by (cases "bucket_step cap r cost (redis_ms t) b")
  note ex = script_exact [OF args(4) vt b(2)]
  have sc: "hset_tokens (tokenBucketScript a t bucket) = of_int left'"
    "hset_updated_at_ms (tokenBucketScript a t bucket) = of_int (redis_ms t)"
    "pexpire_ms (tokenBucketScript a t bucket) = of_int ttl"
    and gr: "script_grants a ob = ok"
    by (simp_all add: assms(1) b(1) ex step script_grants_def ob)
  have "cost * int (length (filter (script_grants a) obs)) \<le> left' + r * (final_ms t obs - redis_ms t)"
    using bucket_step_bounds [OF step b(2)] args by (intro Cons.IH [OF vt sc _ _ rest]) auto
  with gain bucket_step_split [OF step] gr show ?case
    by (simp add: ob algebra_simps split: if_splits)
qed

lemma milli_scale: "1000000 * n \<le> b * 1000000 + r * 1000 * d \<Longrightarrow> 1000 * n \<le> 1000 * b + r * (d :: int)"
  by linarith

lemma grants_bounded:
  assumes "a = (cap, r, cost, ttl)" and "exact_argv a" and "cap \<le> ttl * r"
    and "redis_serves a None ((t, bucket) # obs)"
  shows "cost * int (length (filter (script_grants a) ((t, bucket) # obs)))
           \<le> cap + r * (final_ms t obs - redis_ms t)"
proof -
  have args: "0 \<le> cap" "0 < r" "0 \<le> cost" "exact_argv (cap, r, cost, ttl)"
    using assms(1,2) by (auto simp: exact_argv_def)
  have vt: "valid_time t" and b: "bucket = bucket_fields None"
    and rest: "redis_serves a (Some (t, tokenBucketScript a t bucket)) obs"
    using assms(4) by (auto simp: bucket_fields_def)
  have vb: "valid_bucket cap None" by (simp add: valid_bucket_def)
  obtain ok left where step: "bucket_step cap r cost (redis_ms t) None = (ok, left)"
    by (cases "bucket_step cap r cost (redis_ms t) None")
  note ex = script_exact [OF args(4) vt vb]
  have "cost * int (length (filter (script_grants a) obs)) \<le> left + r * (final_ms t obs - redis_ms t)"
    using bucket_step_bounds [OF step vb] args
    by (intro grants_bounded_from [OF assms(1-3) vt _ _ _ _ _ rest]) (auto simp: assms(1) b ex step)
  moreover have "script_grants a (t, bucket) = ok"
    by (simp add: assms(1) b ex step script_grants_def)
  ultimately show ?thesis
    using bucket_step_split [OF step] by (simp add: bucket_refill_def algebra_simps split: if_splits)
qed

section \<open>Allow over the script\<close>

definition served_run :: "observation \<Rightarrow> gostring \<Rightarrow> argv \<Rightarrow> int list result" where
  "served_run ob key a = Inr (reply (tokenBucketScript a (fst ob) (snd ob)))"

definition admits :: "int \<Rightarrow> RedisLimiter \<Rightarrow> Request \<Rightarrow> observation \<Rightarrow> bool" where
  "admits now l request ob =
     (case Allow (served_run ob) now l request of Inl e \<Rightarrow> False | Inr d \<Rightarrow> Allowed d)"

lemma Allow_valid:
  "valid_policy request \<Longrightarrow> client_present l \<Longrightarrow>
   run (bucket_key (limiter_prefix l) request) (policy_argv request) = Inr result \<Longrightarrow>
   length result = 4 \<Longrightarrow>
   Allow run now l request =
     Inr \<lparr>Allowed = (result ! 0 = 1), Limit = rlBurstCapacity request,
          Remaining = result ! 1 sdiv microToken, ResetAt = now + wrap64 (result ! 3 * time_Millisecond),
          RetryAfter = wrap64 (result ! 2 * time_Millisecond)\<rparr>"
  by (simp add: Allow_def valid_policy_def)

lemma length_reply [simp]: "length (reply (tokenBucketScript a t b)) = 4"
  by (simp add: tokenBucketScript_def Let_def split: prod.splits)

lemma admits_script_grants:
  "valid_policy request \<Longrightarrow> client_present l \<Longrightarrow>
   admits now l request ob = script_grants (policy_argv request) ob"
  by (simp add: admits_def Allow_valid served_run_def script_grants_def)

text \<open>The integer decision \<open>Allow\<close> returns for a policy the schema admits.\<close>

lemma Allow_served:
  assumes "valid_policy request" and "client_present l" and "valid_time t"
    and "valid_bucket (rlBurstCapacity request * 1000000) b"
    and "bucket_step (rlBurstCapacity request * 1000000) (rlRatePerSecond request * 1000) 1000000
           (redis_ms t) b = (ok, left)"
  shows "Allow (served_run (t, bucket_fields b)) now l request =
     Inr \<lparr>Allowed = ok, Limit = rlBurstCapacity request, Remaining = left div 1000000,
          ResetAt = now + ceil_div (rlBurstCapacity request * 1000000 - left) (rlRatePerSecond request * 1000) * time_Millisecond,
          RetryAfter = (if ok then 0 else ceil_div (1000000 - left) (rlRatePerSecond request * 1000) * time_Millisecond)\<rparr>"
proof -
  let ?cap = "rlBurstCapacity request * 1000000" and ?r = "rlRatePerSecond request * 1000"
  note pv = policy_argv_valid [OF assms(1)]
  have r: "1000 \<le> ?r" and cap: "0 \<le> ?cap" and b: "0 \<le> rlBurstCapacity request * 1000" "rlBurstCapacity request < 2 ^ 31"
    using assms(1) by (auto simp: valid_policy_def)
  have left: "0 \<le> left" "left \<le> ?cap" and ok: "\<not> ok \<Longrightarrow> left < 1000000"
    using bucket_step_bounds [OF assms(5,4)] bucket_step_split [OF assms(5)] r cap by auto
  have ex: "exact_argv (?cap, ?r, 1000000, policy_ttl request)" using pv by simp
  have "rlBurstCapacity request * 1000 * 1000 \<le> rlBurstCapacity request * 1000 * ?r"
    using r b by (intro mult_left_mono) auto
  then have "ceil_div (?cap - left) ?r \<le> rlBurstCapacity request * 1000" "0 \<le> ceil_div (?cap - left) ?r"
    using left r by (auto simp: ceil_div_le_iff ceil_div_nonneg)
  with b have w1: "wrap64 (ceil_div (?cap - left) ?r * time_Millisecond) = ceil_div (?cap - left) ?r * time_Millisecond"
    by (intro wrap64_id) (simp add: in_int64_def)
  have "1000 * 1000 \<le> 1000 * ?r" using r by (intro mult_left_mono) auto
  then have "ceil_div (1000000 - left) ?r \<le> 1000" "\<not> ok \<Longrightarrow> 0 \<le> ceil_div (1000000 - left) ?r"
    using left r ok by (auto simp: ceil_div_le_iff ceil_div_nonneg)
  then have w2: "\<not> ok \<Longrightarrow> wrap64 (ceil_div (1000000 - left) ?r * time_Millisecond) = ceil_div (1000000 - left) ?r * time_Millisecond"
    by (intro wrap64_id) (simp add: in_int64_def)
  have "reply (tokenBucketScript (policy_argv request) t (bucket_fields b))
      = [if ok then 1 else 0, left, if ok then 0 else ceil_div (1000000 - left) ?r, ceil_div (?cap - left) ?r]"
    by (simp add: pv(1) script_exact [OF ex assms(3,4)] assms(5))
  with w1 w2 left show ?thesis
    by (cases ok) (simp_all add: Allow_valid [OF assms(1,2)] served_run_def microToken_def sdiv_nonneg wrap64_id in_int64_def)
qed

text \<open>The bound over a history of one bucket, for \<open>Allow\<close>.\<close>

lemma admitted_within_refill:
  assumes "valid_policy request" and "client_present l"
    and "redis_serves (policy_argv request) None (ob # obs)"
  shows "1000 * int (length (filter (admits now l request) (ob # obs)))
     \<le> 1000 * rlBurstCapacity request
        + rlRatePerSecond request * (final_ms (fst ob) obs - redis_ms (fst ob))"
proof -
  obtain t bucket where ob: "ob = (t, bucket)" by (cases ob)
  note pv = policy_argv_valid [OF assms(1)] and ttl = policy_ttl_bounds(3) [OF assms(1)]
  have "admits now l request = script_grants (policy_argv request)"
    using assms by (simp add: fun_eq_iff admits_script_grants)
  moreover have "1000000 * int (length (filter (script_grants (policy_argv request)) (ob # obs)))
      \<le> rlBurstCapacity request * 1000000 + rlRatePerSecond request * 1000 * (final_ms t obs - redis_ms t)"
    unfolding ob by (rule grants_bounded [OF pv(1,2) ttl assms(3) [unfolded ob]])
  then have "1000 * int (length (filter (script_grants (policy_argv request)) (ob # obs)))
      \<le> 1000 * rlBurstCapacity request + rlRatePerSecond request * (final_ms t obs - redis_ms t)"
    by (rule milli_scale)
  ultimately show ?thesis by (simp only: ob fst_conv)
qed

section \<open>Properties\<close>

text \<open>
  C1. Quota safety.  Over any sequence of calls on one bucket, with any gaps, expiries of the key
  included, the calls \<open>Allow\<close> admits are at most the burst capacity plus the refill rate times the
  elapsed Redis time: \<open>admitted \<le> burst + rate * elapsed\<close>, stated in thousandths.
\<close>

theorem allow_admission_bound:
  assumes "valid_policy request" and "client_present l"
    and "redis_serves (policy_argv request) None (ob # obs)"
  shows "1000 * int (length (filter (admits now l request) (ob # obs)))
     \<le> 1000 * rlBurstCapacity request
        + rlRatePerSecond request * (final_ms (fst ob) obs - redis_ms (fst ob))"
  using assms by (rule admitted_within_refill)

theorem allow_admission_bound_witness:
  "1000 * int (length (filter (admits 0 \<lparr>client_present = True, limiter_prefix = ''p''\<rparr>
       \<lparr>Identity = ''k'', rlRoute = ''/api/users'', rlRatePerSecond = 1, rlBurstCapacity = 1\<rparr>)
       [((100, 0), None, None), ((100, 500000), Some 0, Some 100000), ((104, 0), None, None)]))
     \<le> 1000 + 1 * 4000"
proof -
  let ?r = "\<lparr>Identity = ''k'', rlRoute = ''/api/users'', rlRatePerSecond = 1, rlBurstCapacity = 1\<rparr>"
  let ?l = "\<lparr>client_present = True, limiter_prefix = ''p''\<rparr>"
  let ?ob = "((100, 0), None, None)" and ?obs = "[((100, 500000), Some 0, Some 100000), ((104, 0), None, None)]"
  have pol: "valid_policy ?r" by (simp add: valid_policy_def)
  note pv = policy_argv_valid [OF pol]
  have a: "policy_argv ?r = (1000000, 1000, 1000000, 3000)" and e: "exact_argv (1000000, 1000, 1000000, 3000)"
    using pv by (simp_all add: policy_ttl_def)
  have "redis_serves (policy_argv ?r) None (?ob # ?obs)"
    using script_exact [OF e, of "(100, 0)" None] script_exact [OF e, of "(100, 500000)" "Some (0, 100000)"]
    by (simp add: a valid_time_def valid_bucket_def bucket_fields_def bucket_step_def bucket_refill_def
        redis_ms_def redis_keeps_def)
  from allow_admission_bound [OF pol _ this, of ?l 0] show ?thesis
    by (simp add: redis_ms_def)
qed

text \<open>
  C2. The script, which computes in doubles, is the integer bucket: for every policy the schema
  admits, every Redis time and every bucket it may have stored, what it writes and returns are
  the integers of \<open>bucket_step\<close>, with both delays rounded up exactly.
\<close>

theorem tokenBucketScript_refines_bucket:
  assumes "valid_policy request" and "valid_time t"
    and "valid_bucket (rlBurstCapacity request * 1000000) b"
  shows "tokenBucketScript (policy_argv request) t (bucket_fields b) =
    (let cap = rlBurstCapacity request * 1000000; r = rlRatePerSecond request * 1000;
         (ok, left) = bucket_step cap r 1000000 (redis_ms t) b in
     \<lparr>hset_tokens = of_int left, hset_updated_at_ms = of_int (redis_ms t),
      pexpire_ms = of_int (policy_ttl request),
      reply = [if ok then 1 else 0, left, if ok then 0 else ceil_div (1000000 - left) r, ceil_div (cap - left) r]\<rparr>)"
proof -
  note pv = policy_argv_valid [OF assms(1)]
  from script_exact [OF pv(2) [unfolded pv(1)] assms(2,3)] show ?thesis by (simp add: pv(1) Let_def)
qed

theorem tokenBucketScript_refines_bucket_witness:
  "tokenBucketScript
     (policy_argv \<lparr>Identity = ''k'', rlRoute = ''/api/orders'', rlRatePerSecond = 3, rlBurstCapacity = 4\<rparr>)
     (1700000000, 250999) (Some 999999, Some 1700000000250) =
   \<lparr>hset_tokens = 999999, hset_updated_at_ms = 1700000000250, pexpire_ms = 3666,
    reply = [0, 999999, 1, 1001]\<rparr>"
proof -
  let ?r = "\<lparr>Identity = ''k'', rlRoute = ''/api/orders'', rlRatePerSecond = 3, rlBurstCapacity = 4\<rparr>"
  have "valid_policy ?r" "valid_time (1700000000, 250999)"
    "valid_bucket (rlBurstCapacity ?r * 1000000) (Some (999999, 1700000000250))"
    by (simp_all add: valid_policy_def valid_time_def valid_bucket_def)
  from tokenBucketScript_refines_bucket [OF this] show ?thesis
    by (simp add: bucket_fields_def bucket_step_def bucket_refill_def redis_ms_def policy_ttl_def ceil_div_def)
qed

text \<open>
  C18. The retry delay is exact: after a denial, a call that finds the bucket the denial wrote is
  granted as soon as the returned number of milliseconds has passed, and denied at any moment
  before that.
\<close>

theorem retry_delay_exact:
  assumes "valid_policy request" and "valid_time t" and "valid_time t'"
    and "valid_bucket (rlBurstCapacity request * 1000000) b"
    and "w = tokenBucketScript (policy_argv request) t (bucket_fields b)"
    and "\<not> script_grants (policy_argv request) (t, bucket_fields b)"
    and "redis_ms t \<le> redis_ms t'"
  shows "script_grants (policy_argv request) (t', (Some (hset_tokens w), Some (hset_updated_at_ms w)))
    \<longleftrightarrow> redis_ms t + reply w ! 2 \<le> redis_ms t'"
proof -
  let ?cap = "rlBurstCapacity request * 1000000" and ?r = "rlRatePerSecond request * 1000"
  note pv = policy_argv_valid [OF assms(1)]
  have ex: "exact_argv (?cap, ?r, 1000000, policy_ttl request)" using pv by simp
  have r: "0 < ?r" and cap: "1000000 \<le> ?cap" using assms(1) by (auto simp: valid_policy_def)
  obtain ok left where step: "bucket_step ?cap ?r 1000000 (redis_ms t) b = (ok, left)"
    by (cases "bucket_step ?cap ?r 1000000 (redis_ms t) b")
  note sc = script_exact [OF ex assms(2,4), unfolded step]
  have no: "\<not> ok" using assms(6) by (auto simp: script_grants_def pv(1) sc)
  have w: "hset_tokens w = of_int left" "hset_updated_at_ms w = of_int (redis_ms t)"
    "reply w ! 2 = ceil_div (1000000 - left) ?r"
    using no by (simp_all add: assms(5) pv(1) sc)
  have vb: "valid_bucket ?cap (Some (left, redis_ms t))"
    using bucket_step_bounds [OF step assms(4)] r cap redis_ms_bounds [OF assms(2)]
    by (simp add: valid_bucket_def)
  have "script_grants (policy_argv request) (t', bucket_fields (Some (left, redis_ms t)))
      \<longleftrightarrow> 1000000 \<le> left + (redis_ms t' - redis_ms t) * ?r"
    using script_exact [OF ex assms(3) vb] assms(7) cap
    by (auto simp: script_grants_def pv(1) bucket_step_def bucket_refill_def Let_def)
  also have "\<dots> \<longleftrightarrow> ceil_div (1000000 - left) ?r \<le> redis_ms t' - redis_ms t"
    using r by (auto simp: ceil_div_le_iff)
  finally show ?thesis by (auto simp: w bucket_fields_def)
qed

theorem retry_delay_exact_witness:
  "script_grants (policy_argv \<lparr>Identity = ''k'', rlRoute = ''/api/orders'', rlRatePerSecond = 3, rlBurstCapacity = 4\<rparr>)
     ((200, 334000), (Some 0, Some 200000))"
proof -
  let ?r = "\<lparr>Identity = ''k'', rlRoute = ''/api/orders'', rlRatePerSecond = 3, rlBurstCapacity = 4\<rparr>"
  have v: "valid_policy ?r" "valid_time (200, 0)" "valid_time (200, 334000)"
    "valid_bucket (rlBurstCapacity ?r * 1000000) (Some (0, 200000))"
    by (simp_all add: valid_policy_def valid_time_def valid_bucket_def)
  have e: "exact_argv (4000000, 3000, 1000000, 3666)" by (simp add: exact_argv_def)
  have a: "policy_argv ?r = (4000000, 3000, 1000000, 3666)"
    using policy_argv_valid(1) [OF v(1)] by (simp add: policy_ttl_def)
  have w: "tokenBucketScript (policy_argv ?r) (200, 0) (bucket_fields (Some (0, 200000))) =
     \<lparr>hset_tokens = 0, hset_updated_at_ms = 200000, pexpire_ms = 3666, reply = [0, 0, 334, 1334]\<rparr>"
    using script_exact [OF e v(2), of "Some (0, 200000)"]
    by (simp add: a valid_bucket_def bucket_step_def bucket_refill_def redis_ms_def ceil_div_def)
  have "\<not> script_grants (policy_argv ?r) ((200, 0), bucket_fields (Some (0, 200000)))"
    by (simp add: script_grants_def w)
  from retry_delay_exact [OF v refl this] show ?thesis by (simp add: w redis_ms_def)
qed

text \<open>
  What \<open>Allow\<close> reports is within its bounds: the limit is the burst capacity; an admitted
  call leaves fewer tokens than the limit and no retry delay; a denied one has no token left and a
  positive retry delay of at most one second; the reset time is not before the gateway's clock.
\<close>

theorem allow_decision_bounds:
  assumes "valid_policy request" and "client_present l" and "valid_time t"
    and "valid_bucket (rlBurstCapacity request * 1000000) b"
  shows "\<exists>d. Allow (served_run (t, bucket_fields b)) now l request = Inr d
    \<and> Limit d = rlBurstCapacity request \<and> 0 \<le> Remaining d \<and> Remaining d \<le> Limit d \<and> now \<le> ResetAt d
    \<and> (if Allowed d then Remaining d < Limit d \<and> RetryAfter d = 0
       else Remaining d = 0 \<and> 0 < RetryAfter d \<and> RetryAfter d \<le> time_Second)"
proof -
  let ?cap = "rlBurstCapacity request * 1000000" and ?r = "rlRatePerSecond request * 1000"
  have r: "1000 \<le> ?r" and cap: "0 \<le> ?cap" using assms(1) by (auto simp: valid_policy_def)
  obtain ok left where step: "bucket_step ?cap ?r 1000000 (redis_ms t) b = (ok, left)"
    by (cases "bucket_step ?cap ?r 1000000 (redis_ms t) b")
  have left: "0 \<le> left" "left \<le> ?cap" "\<not> ok \<Longrightarrow> left < 1000000" "ok \<Longrightarrow> left + 1000000 \<le> ?cap"
    using bucket_step_bounds [OF step assms(4)] bucket_step_split [OF step] r cap
      bucket_refill_bounds [OF assms(4), of ?r "redis_ms t"] by auto
  have "ceil_div (1000000 - left) ?r \<le> 1000"
    using left r by (auto simp: ceil_div_le_iff)
  moreover have "\<not> ok \<Longrightarrow> \<not> ceil_div (1000000 - left) ?r \<le> 0"
    using left(3) r by (simp add: ceil_div_le_iff)
  moreover have "0 \<le> ceil_div (?cap - left) ?r" using left r by (intro ceil_div_nonneg) auto
  ultimately show ?thesis
    unfolding Allow_served [OF assms step] using left by (cases ok) auto
qed

theorem allow_decision_bounds_witness:
  "\<exists>d. Allow (served_run ((200, 0), bucket_fields (Some (0, 200000)))) 5
       \<lparr>client_present = True, limiter_prefix = ''p''\<rparr>
       \<lparr>Identity = ''k'', rlRoute = ''/api/orders'', rlRatePerSecond = 3, rlBurstCapacity = 4\<rparr> = Inr d
     \<and> Limit d = 4 \<and> 5 \<le> ResetAt d"
proof -
  let ?r = "\<lparr>Identity = ''k'', rlRoute = ''/api/orders'', rlRatePerSecond = 3, rlBurstCapacity = 4\<rparr>"
  let ?l = "\<lparr>client_present = True, limiter_prefix = ''p''\<rparr>"
  have "valid_policy ?r" "client_present ?l" "valid_time (200, 0)"
    "valid_bucket (rlBurstCapacity ?r * 1000000) (Some (0, 200000))"
    by (simp_all add: valid_policy_def valid_time_def valid_bucket_def)
  from allow_decision_bounds [OF this, of 5] show ?thesis by auto
qed

text \<open>
  \<open>Allow\<close> gives a decision exactly when a client is configured, the identity and route are
  present, the policy is positive and the script ran and returned four values; everything else is
  an error, which the gateway treats as an unavailable limiter.
\<close>

theorem allow_decides_iff:
  "(\<exists>d. Allow run now l request = Inr d) \<longleftrightarrow>
     client_present l \<and> Identity request \<noteq> [] \<and> rlRoute request \<noteq> []
     \<and> 0 < rlRatePerSecond request \<and> 0 < rlBurstCapacity request
     \<and> (\<exists>result. run (bucket_key (limiter_prefix l) request) (policy_argv request) = Inr result
          \<and> length result = 4)"
  by (auto simp: Allow_def split: sum.splits)



section \<open>The limiter interface\<close>

text \<open>What a client of \<open>ratelimit.Limiter\<close> may rely on, and that \<open>RedisLimiter\<close> provides it.\<close>

locale limiter =
  fixes allow :: "Request \<Rightarrow> Decision result"
  assumes allow_limit: "allow q = Inr d \<Longrightarrow> Limit d = rlBurstCapacity q"
    and allow_positive: "allow q = Inr d \<Longrightarrow> 0 < rlRatePerSecond q \<and> 0 < rlBurstCapacity q"
    and allow_identified: "allow q = Inr d \<Longrightarrow> Identity q \<noteq> [] \<and> rlRoute q \<noteq> []"
begin

lemma limit_positive: "allow q = Inr d \<Longrightarrow> 0 < Limit d"
  using allow_limit allow_positive by metis

lemma anonymous_refused: "Identity q = [] \<Longrightarrow> \<exists>e. allow q = Inl e"
  using allow_identified [of q] by (cases "allow q") auto

end

interpretation redis: limiter "Allow run now l" for run now l
  by unfold_locales (auto simp: Allow_def split: if_splits sum.splits)

end
