(* ===== verification/Auth_Service.thy ===== *)
theory Auth_Service
  imports Crypto_Encoding
begin

text \<open>
  \<open>internal/auth/auth.go\<close>: principals, the authentication service with its peppered digest, key
  generation and the display prefix.  The entropy of \<open>GenerateKey\<close> is its argument.  The interface
  \<open>auth.Store\<close> is the locale \<open>auth_store\<close>: the client's lemmas (no key, no access; a digest the
  store does not hold active is refused) are proved there once and reach the program through the
  store's interpretation.
\<close>

datatype auth_error = ErrInvalidKey | OtherError string

record Principal =
  KeyID :: gostring
  ClientID :: gostring
  ClientName :: gostring
  Plan :: gostring
  RatePerSecond :: int
  BurstCapacity :: int

definition no_principal :: Principal where
  "no_principal = \<lparr>KeyID = [], ClientID = [], ClientName = [], Plan = [], RatePerSecond = 0, BurstCapacity = 0\<rparr>"

text \<open>\<open>LookupActiveKey\<close>: a digest and a route give a principal or an error.\<close>

type_synonym lookup = "gostring \<Rightarrow> gostring \<Rightarrow> auth_error + Principal"

record Service =
  svc_store :: lookup
  svc_pepper :: gostring

definition NewService :: "lookup option \<Rightarrow> gostring \<Rightarrow> Service result" where
  "NewService store pepper =
     (case store of
        None \<Rightarrow> Inl ''authentication store is nil''
      | Some lookup \<Rightarrow>
          if length pepper < 16 then Inl ''API key pepper must contain at least 16 characters''
          else Inr \<lparr>svc_store = lookup, svc_pepper = pepper\<rparr>)"

definition Digest :: "gostring \<Rightarrow> gostring \<Rightarrow> gostring" where
  "Digest pepper rawKey = hmac_sha256 pepper rawKey"

definition Authenticate :: "Service \<Rightarrow> gostring \<Rightarrow> gostring \<Rightarrow> auth_error + Principal" where
  "Authenticate s rawKey route =
     (if TrimSpace rawKey = [] then Inl ErrInvalidKey
      else case svc_store s (Digest (svc_pepper s) rawKey) route of
        Inl err \<Rightarrow> Inl err
      | Inr p \<Rightarrow> Inr p)"

definition Prefix :: "gostring \<Rightarrow> gostring" where
  "Prefix rawKey =
     (let prefixLength = (if length rawKey < 18 then length rawKey else 18) in take prefixLength rawKey)"

definition GenerateKey :: "gostring result \<Rightarrow> (gostring \<times> gostring) result" where
  "GenerateKey random =
     (case random of
        Inl err \<Rightarrow> Inl (''generate API key entropy: '' @ err)
      | Inr bs \<Rightarrow>
          let rawKey = ''gw_live_'' @ RawURLEncoding bs in Inr (rawKey, Prefix rawKey))"

section \<open>The store interface\<close>

locale auth_store =
  fixes lookup :: lookup
    and active :: "gostring \<Rightarrow> bool"
    and issued :: "gostring \<Rightarrow> Principal \<Rightarrow> bool"
  assumes lookup_active: "lookup d route = Inr p \<Longrightarrow> active d"
    and lookup_issued: "lookup d route = Inr p \<Longrightarrow> issued d p"
begin

lemma no_key_no_access:
  "TrimSpace rawKey = [] \<Longrightarrow> Authenticate \<lparr>svc_store = lookup, svc_pepper = pepper\<rparr> rawKey route = Inl ErrInvalidKey"
  by (simp add: Authenticate_def)

lemma authenticated_key:
  "Authenticate \<lparr>svc_store = lookup, svc_pepper = pepper\<rparr> rawKey route = Inr p \<Longrightarrow>
     TrimSpace rawKey \<noteq> [] \<and> active (Digest pepper rawKey) \<and> issued (Digest pepper rawKey) p"
  using lookup_active lookup_issued by (auto simp: Authenticate_def split: if_splits sum.splits)

lemma inactive_key_refused:
  "\<not> active (Digest pepper rawKey) \<Longrightarrow>
     \<exists>err. Authenticate \<lparr>svc_store = lookup, svc_pepper = pepper\<rparr> rawKey route = Inl err"
  using authenticated_key by (cases "Authenticate \<lparr>svc_store = lookup, svc_pepper = pepper\<rparr> rawKey route") blast+

end

section \<open>Properties\<close>

lemma length_Digest [simp]: "length (Digest pepper rawKey) = 32"
  by (simp add: Digest_def)

lemma graphic_b64: "c \<in> set b64_alphabet \<Longrightarrow> graphic c"
  by (auto simp: b64_alphabet_def graphic_def)

lemma RawURLEncoding_graphic: "c \<in> set (RawURLEncoding bs) \<Longrightarrow> graphic c"
  using sextets_bound [OF bytes_lt [of bs]]
  by (auto simp: RawURLEncoding_def b64_alphabet_distinct intro!: graphic_b64)

lemma generated_key_shape:
  assumes "length bs = 32"
  shows "length (''gw_live_'' @ RawURLEncoding bs) = 51"
    and "TrimSpace (''gw_live_'' @ RawURLEncoding bs) = ''gw_live_'' @ RawURLEncoding bs"
proof -
  let ?raw = "''gw_live_'' @ RawURLEncoding bs"
  show len: "length ?raw = 51" using assms by (simp add: length_RawURLEncoding)
  then have "RawURLEncoding bs \<noteq> []" by auto
  then have "graphic (last ?raw)" using RawURLEncoding_graphic [OF last_in_set] by simp
  moreover have "graphic (hd ?raw)" by (simp add: graphic_def)
  ultimately show "TrimSpace ?raw = ?raw" by (intro TrimSpace_graphic)
qed

text \<open>
  A generated key is 51 printable characters that the authentication service does not take for
  a missing key, its display prefix is its first 18 characters, and no entropy is lost: keys from
  different random bytes differ.
\<close>

theorem generated_key_format:
  assumes "length bs = 32"
  shows "\<exists>raw. GenerateKey (Inr bs) = Inr (raw, Prefix raw) \<and> length raw = 51 \<and> take 8 raw = ''gw_live_''
    \<and> TrimSpace raw = raw \<and> length (Prefix raw) = 18 \<and> raw = Prefix raw @ drop 18 raw
    \<and> (\<forall>bs'. GenerateKey (Inr bs') = GenerateKey (Inr bs) \<longrightarrow> bs' = bs)"
proof -
  let ?raw = "''gw_live_'' @ RawURLEncoding bs"
  note len = generated_key_shape(1) [OF assms]
  note generated_key_shape(2) [OF assms]
  moreover have "Prefix ?raw = take 18 ?raw" using len unfolding Prefix_def Let_def by presburger
  then have "length (Prefix ?raw) = 18 \<and> ?raw = Prefix ?raw @ drop 18 ?raw"
    using len by (simp only: append_take_drop_id length_take) simp
  moreover have "bs' = bs" if "GenerateKey (Inr bs') = GenerateKey (Inr bs)" for bs'
  proof -
    have "RawURLEncoding bs' = RawURLEncoding bs" using that by (simp add: GenerateKey_def Let_def)
    then show ?thesis by (rule injD [OF RawURLEncoding_inj])
  qed
  moreover have "GenerateKey (Inr bs) = Inr (?raw, Prefix ?raw)" by (simp add: GenerateKey_def Let_def)
  ultimately show ?thesis using len by (intro exI [of _ ?raw]) simp
qed

theorem generated_key_format_witness:
  "\<exists>raw. GenerateKey (Inr (replicate 32 (CHR 0x00))) = Inr (raw, Prefix raw) \<and> length raw = 51"
  using generated_key_format [of "replicate 32 (CHR 0x00)"] by auto

end
