(* ===== verification/Usage_Event.thy ===== *)
theory Usage_Event
  imports Gateway_Prelude
begin

text \<open>
  \<open>internal/usage/event.go\<close>: the usage event, its validation and the version-4 UUID that
  identifies it.  The random bytes are the argument of \<open>NewEventID\<close>.  A \<open>time.Time\<close> is the
  number of nanoseconds since the Unix epoch; Go's zero time is 1 January of year 1.
\<close>

unbundle bit_operations_syntax

section \<open>Events\<close>

record Event =
  evID :: gostring
  evRequestID :: gostring
  evAPIKeyID :: gostring
  evClientID :: gostring
  evRoute :: gostring
  evMethod :: gostring
  evStatusCode :: int
  evDurationMicros :: int
  evResponseBytes :: int
  evOccurredAt :: int

definition zero_time :: int where
  "zero_time = - 62135596800 * time_Second"

text \<open>\<open>Validate\<close> returns the error of the first failing case, \<open>None\<close> for \<open>nil\<close>.\<close>

definition Validate :: "Event \<Rightarrow> string option" where
  "Validate e =
     (if TrimSpace (evID e) = [] then Some ''event ID is required''
      else if TrimSpace (evAPIKeyID e) = [] then Some ''API key ID is required''
      else if TrimSpace (evClientID e) = [] then Some ''client ID is required''
      else if \<not> HasPrefix (evRoute e) ''/'' then Some ''normalized route is required''
      else if TrimSpace (evMethod e) = [] then Some ''HTTP method is required''
      else if evStatusCode e < 100 \<or> evStatusCode e > 599 then Some ''status code must be between 100 and 599''
      else if evDurationMicros e < 0 then Some ''duration cannot be negative''
      else if evResponseBytes e < 0 then Some ''response bytes cannot be negative''
      else if evOccurredAt e = zero_time then Some ''occurrence time is required''
      else None)"

abbreviation valid_event :: "Event \<Rightarrow> bool" where
  "valid_event e \<equiv> Validate e = None"

lemma valid_event_iff:
  "valid_event e \<longleftrightarrow>
     TrimSpace (evID e) \<noteq> [] \<and> TrimSpace (evAPIKeyID e) \<noteq> [] \<and> TrimSpace (evClientID e) \<noteq> []
     \<and> HasPrefix (evRoute e) ''/'' \<and> TrimSpace (evMethod e) \<noteq> []
     \<and> 100 \<le> evStatusCode e \<and> evStatusCode e \<le> 599 \<and> 0 \<le> evDurationMicros e
     \<and> 0 \<le> evResponseBytes e \<and> evOccurredAt e \<noteq> zero_time"
  by (auto simp: Validate_def)

section \<open>Event identifiers\<close>

definition slice :: "nat \<Rightarrow> nat \<Rightarrow> string \<Rightarrow> string" where
  "slice a b s = take (b - a) (drop a s)"

definition uuid_bytes :: "8 word list \<Rightarrow> 8 word list" where
  "uuid_bytes v = v[6 := (v ! 6 AND 0x0f) OR 0x40, 8 := (v ! 8 AND 0x3f) OR 0x80]"

definition uuid_text :: "string \<Rightarrow> string" where
  "uuid_text encoded =
     slice 0 8 encoded @ ''-'' @ slice 8 12 encoded @ ''-'' @ slice 12 16 encoded @ ''-''
     @ slice 16 20 encoded @ ''-'' @ slice 20 32 encoded"

text \<open>The argument is what \<open>rand.Read\<close> does to the sixteen-byte buffer: an error or its bytes.\<close>

definition NewEventID :: "8 word list result \<Rightarrow> gostring result" where
  "NewEventID random =
     (case random of
        Inl err \<Rightarrow> Inl (''generate usage event ID: '' @ err)
      | Inr v \<Rightarrow> Inr (uuid_text (hex_encode (map unat (uuid_bytes v)))))"

text \<open>The textual form of a version-4 UUID of the RFC 4122 variant.\<close>

definition is_hex_digit :: "char \<Rightarrow> bool" where
  "is_hex_digit c \<longleftrightarrow> c \<in> set ''0123456789abcdef''"

definition is_uuid_v4 :: "gostring \<Rightarrow> bool" where
  "is_uuid_v4 s \<longleftrightarrow> length s = 36
     \<and> map (\<lambda>i. s ! i) [8, 13, 18, 23] = ''----''
     \<and> list_all (\<lambda>c. c = CHR ''-'' \<or> is_hex_digit c) s \<and> count_list s (CHR ''-'') = 4
     \<and> s ! 14 = CHR ''4'' \<and> s ! 19 \<in> set ''89ab''"

lemma length_uuid_bytes [simp]: "length (uuid_bytes v) = length v"
  by (simp add: uuid_bytes_def)

lemma version_nibble: "unat (((x :: 8 word) AND 0x0f) OR 0x40) div 16 = 4"
proof -
  have "drop_bit 4 ((x AND 0x0f) OR 0x40) = (4 :: 8 word)"
    by (rule bit_word_eqI) (auto simp: bit_simps)
  then have "unat (drop_bit 4 ((x AND 0x0f) OR 0x40)) = 4" by simp
  then show ?thesis unfolding unat_drop_bit_eq by (simp add: drop_bit_eq_div)
qed

lemma variant_nibble: "unat (((x :: 8 word) AND 0x3f) OR 0x80) div 16 \<in> {8, 9, 10, 11}"
proof -
  have "drop_bit 6 ((x AND 0x3f) OR 0x80) = (2 :: 8 word)"
    by (rule bit_word_eqI) (auto simp: bit_simps)
  then have "unat (drop_bit 6 ((x AND 0x3f) OR 0x80)) = 2" by simp
  then have "unat ((x AND 0x3f) OR 0x80) div 64 = 2"
    unfolding unat_drop_bit_eq by (simp add: drop_bit_eq_div)
  then show ?thesis by auto
qed

lemma digit_char_hex: "k < 16 \<Longrightarrow> is_hex_digit (digit_char k)"
proof -
  assume "k < 16"
  then have "k \<in> set [0..<16]" by simp
  moreover have "list_all (\<lambda>k. is_hex_digit (digit_char k)) [0..<16]" by code_simp
  ultimately show ?thesis by (simp add: list_all_iff)
qed

lemma digit_char_not_dash: "k < 16 \<Longrightarrow> digit_char k \<noteq> CHR ''-''"
  using digit_char_hex [of k] by (auto simp: is_hex_digit_def)

lemma digit_char_4: "digit_char 4 = CHR ''4''"
  by code_simp

lemma is_hex_digit_4: "is_hex_digit (CHR ''4'')"
  by (simp add: is_hex_digit_def)

lemma digit_char_variant: "k \<in> {8, 9, 10, 11} \<Longrightarrow> digit_char k \<in> set ''89ab''"
proof -
  have "list_all (\<lambda>k. digit_char k \<in> set ''89ab'') [8, 9, 10, 11]" by code_simp
  then show "k \<in> {8, 9, 10, 11} \<Longrightarrow> digit_char k \<in> set ''89ab''" by (auto simp: list_all_iff)
qed

lemma length_16_cases:
  assumes "length v = 16"
  obtains b0 b1 b2 b3 b4 b5 b6 b7 b8 b9 b10 b11 b12 b13 b14 b15
  where "v = [b0, b1, b2, b3, b4, b5, b6, b7, b8, b9, b10, b11, b12, b13, b14, b15]"
  using assms by (auto simp: numeral_eq_Suc length_Suc_conv)

lemma uuid_bytes_list:
  "uuid_bytes [b0, b1, b2, b3, b4, b5, b6, b7, b8, b9, b10, b11, b12, b13, b14, b15] =
   [b0, b1, b2, b3, b4, b5, (b6 AND 0x0f) OR 0x40, b7, (b8 AND 0x3f) OR 0x80, b9, b10, b11, b12, b13, b14, b15]"
  by (simp add: uuid_bytes_def eval_nat_numeral)

lemma uuid_text_list:
  "uuid_text (hex_encode [n0, n1, n2, n3, n4, n5, n6, n7, n8, n9, n10, n11, n12, n13, n14, n15]) =
   hex_encode [n0, n1, n2, n3] @ ''-'' @ hex_encode [n4, n5] @ ''-'' @ hex_encode [n6, n7] @ ''-''
   @ hex_encode [n8, n9] @ ''-'' @ hex_encode [n10, n11, n12, n13, n14, n15]"
  by (simp add: uuid_text_def slice_def hex_encode_def)

lemma unat_byte_less: "unat (b :: 8 word) < 256"
  using unsigned_less [of b, where 'a = nat] by simp

lemma inj_unat_byte: "inj (unat :: 8 word \<Rightarrow> nat)"
  by (rule injI) (simp add: word_unat_eq_iff)

lemma unat_byte_digits: "unat (b :: 8 word) div 16 < 16" "unat (b :: 8 word) mod 16 < 16"
  using unat_byte_less [of b] by auto

lemma unat_bytes_lt: "\<forall>x\<in>set (map unat (bs :: 8 word list)). x < 256"
  using unat_byte_less by auto

lemma slice_drop: "a \<le> b \<Longrightarrow> slice a b e @ drop b e = drop a e"
  by (metis append_take_drop_id drop_drop le_add_diff_inverse2 slice_def)

definition undash :: "string \<Rightarrow> string" where
  "undash u = slice 0 8 u @ slice 9 13 u @ slice 14 18 u @ slice 19 23 u @ drop 24 u"

lemma undash_uuid_text:
  assumes "length e = 32"
  shows "undash (uuid_text e) = e"
proof -
  have "undash (uuid_text e) = slice 0 8 e @ slice 8 12 e @ slice 12 16 e @ slice 16 20 e @ slice 20 32 e"
    using assms by (simp add: undash_def uuid_text_def slice_def)
  also have "slice 20 32 e = drop 20 e" using assms by (simp add: slice_def)
  also have "slice 0 8 e @ slice 8 12 e @ slice 12 16 e @ slice 16 20 e @ drop 20 e = e"
    by (simp add: slice_drop)
  finally show ?thesis .
qed

lemma NewEventID_uuid_v4:
  assumes "length v = 16"
  shows "\<exists>s. NewEventID (Inr v) = Inr s \<and> is_uuid_v4 s"
proof -
  obtain b0 b1 b2 b3 b4 b5 b6 b7 b8 b9 b10 b11 b12 b13 b14 b15
    where v: "v = [b0, b1, b2, b3, b4, b5, b6, b7, b8, b9, b10, b11, b12, b13, b14, b15]"
    using assms by (rule length_16_cases)
  let ?s = "uuid_text (hex_encode (map unat (uuid_bytes v)))"
  have "is_uuid_v4 ?s"
    using digit_char_variant [OF variant_nibble [of b8]]
    unfolding v uuid_bytes_list list.map uuid_text_list
    by (simp add: hex_encode_Cons hex_encode_def is_uuid_v4_def
        digit_char_hex digit_char_not_dash unat_byte_digits version_nibble digit_char_4 is_hex_digit_4)
  then show ?thesis by (simp add: NewEventID_def)
qed

lemma is_hex_digit_graphic: "is_hex_digit c \<Longrightarrow> graphic c"
  by (auto simp: is_hex_digit_def graphic_def)

lemma NewEventID_not_blank:
  assumes "length v = 16" and "NewEventID (Inr v) = Inr s"
  shows "TrimSpace s \<noteq> []"
proof -
  have "is_uuid_v4 s" using NewEventID_uuid_v4 [OF assms(1)] assms(2) by simp
  then have len: "length s = 36" and all: "list_all (\<lambda>c. c = CHR ''-'' \<or> is_hex_digit c) s"
    unfolding is_uuid_v4_def by blast+
  have "graphic c" if "c \<in> set s" for c
  proof -
    have "c = CHR ''-'' \<or> is_hex_digit c" using all that by (simp add: list_all_iff)
    then show ?thesis
    proof
      assume "c = CHR ''-''"
      then show ?thesis by (simp add: graphic_def)
    qed (rule is_hex_digit_graphic)
  qed
  moreover have "s \<noteq> []" using len by auto
  ultimately show ?thesis by (simp add: TrimSpace_graphic)
qed

section \<open>Properties\<close>

text \<open>
  C34. Whatever bytes the random source gives, \<open>NewEventID\<close> returns the canonical lower-case text
  of a version-4, RFC 4122 variant UUID.
\<close>

theorem new_event_id_is_uuid_v4:
  assumes "length v = 16"
  shows "\<exists>s. NewEventID (Inr v) = Inr s \<and> is_uuid_v4 s"
  using assms by (rule NewEventID_uuid_v4)

theorem new_event_id_is_uuid_v4_witness:
  "\<exists>s. NewEventID (Inr (replicate 16 255)) = Inr s \<and> is_uuid_v4 s"
  by (rule new_event_id_is_uuid_v4) simp

text \<open>
  C8. No entropy is lost in formatting: two identifiers are equal only if the two buffers agree on
  every bit outside the six version and variant bits.
\<close>

theorem new_event_id_unique:
  assumes "length v = 16" and "length w = 16"
  shows "NewEventID (Inr v) = NewEventID (Inr w) \<longleftrightarrow> uuid_bytes v = uuid_bytes w"
proof
  assume eq: "NewEventID (Inr v) = NewEventID (Inr w)"
  let ?h = "\<lambda>v. hex_encode (map unat (uuid_bytes v))"
  have "undash (uuid_text (?h v)) = undash (uuid_text (?h w))"
    using eq by (simp only: NewEventID_def sum.case sum.inject)
  then have "?h v = ?h w"
    using assms by (simp only: undash_uuid_text length_hex_encode length_map length_uuid_bytes)
  then have "map unat (uuid_bytes v) = map unat (uuid_bytes w)"
    by (intro hex_encode_inj unat_bytes_lt)
  then show "uuid_bytes v = uuid_bytes w"
    by (rule map_injective) (rule inj_unat_byte)
qed (simp add: NewEventID_def)

theorem new_event_id_unique_witness:
  "NewEventID (Inr (replicate 16 255)) = NewEventID (Inr ((replicate 16 255)[6 := 0x4f]))
   \<and> NewEventID (Inr (replicate 16 255)) \<noteq> NewEventID (Inr (replicate 16 254))"
proof
  show "NewEventID (Inr (replicate 16 255)) = NewEventID (Inr ((replicate 16 255)[6 := 0x4f]))"
    by (subst new_event_id_unique) (simp_all add: uuid_bytes_def eval_nat_numeral)
  show "NewEventID (Inr (replicate 16 255)) \<noteq> NewEventID (Inr (replicate 16 254))"
    by (subst new_event_id_unique) (simp_all add: uuid_bytes_def eval_nat_numeral)
qed

end
