(* ===== verification/Metrics_Registry.thy ===== *)
theory Metrics_Registry
  imports Float64 "HOL-Library.AList"
begin

text \<open>
  \<open>internal/metrics/metrics.go\<close>: the registry's atomic counters as 64-bit words (they wrap as
  Go's do), the map of response counts as an association list, the request pair
  \<open>Begin\<close>/\<open>finish\<close> and the Prometheus text.  The eight methods of \<open>usage.Observer\<close> are the
  constructors of \<open>observer_call\<close>, so that the pipeline's calls can be listed and replayed; the
  locale \<open>usage_observer\<close> states what an observer that counts promises.
\<close>

type_synonym u64 = "64 word"

section \<open>The registry\<close>

record Registry =
  requests :: u64
  inFlight :: u64
  durationNano :: u64
  usageQueueCapacity :: u64
  usageQueueDepth :: u64
  usageEnqueued :: u64
  usageDropped :: u64
  usageRetries :: u64
  usageBatches :: u64
  usagePersisted :: u64
  usageDeadLettered :: u64
  usageDeadLetterFailures :: u64
  responses :: "(int \<times> u64) list"

definition NewRegistry :: Registry where
  "NewRegistry = \<lparr>requests = 0, inFlight = 0, durationNano = 0, usageQueueCapacity = 0,
     usageQueueDepth = 0, usageEnqueued = 0, usageDropped = 0, usageRetries = 0, usageBatches = 0,
     usagePersisted = 0, usageDeadLettered = 0, usageDeadLetterFailures = 0, responses = []\<rparr>"

definition SetUsageQueueCapacity :: "int \<Rightarrow> Registry \<Rightarrow> Registry" where
  "SetUsageQueueCapacity capacity r = r\<lparr>usageQueueCapacity := of_int capacity\<rparr>"

definition SetUsageQueueDepth :: "int \<Rightarrow> Registry \<Rightarrow> Registry" where
  "SetUsageQueueDepth depth r = r\<lparr>usageQueueDepth := of_int depth\<rparr>"

definition RecordUsageEnqueued :: "Registry \<Rightarrow> Registry" where
  "RecordUsageEnqueued r = r\<lparr>usageEnqueued := usageEnqueued r + 1\<rparr>"

definition RecordUsageDropped :: "int \<Rightarrow> Registry \<Rightarrow> Registry" where
  "RecordUsageDropped count r =
     (if count > 0 then r\<lparr>usageDropped := usageDropped r + of_int count\<rparr> else r)"

definition RecordUsageRetry :: "Registry \<Rightarrow> Registry" where
  "RecordUsageRetry r = r\<lparr>usageRetries := usageRetries r + 1\<rparr>"

definition RecordUsageBatch :: "int \<Rightarrow> Registry \<Rightarrow> Registry" where
  "RecordUsageBatch events r =
     (let r' = r\<lparr>usageBatches := usageBatches r + 1\<rparr> in
      if events > 0 then r'\<lparr>usagePersisted := usagePersisted r' + of_int events\<rparr> else r')"

definition RecordUsageDeadLettered :: "int \<Rightarrow> Registry \<Rightarrow> Registry" where
  "RecordUsageDeadLettered count r =
     (if count > 0 then r\<lparr>usageDeadLettered := usageDeadLettered r + of_int count\<rparr> else r)"

definition RecordUsageDeadLetterFailure :: "int \<Rightarrow> Registry \<Rightarrow> Registry" where
  "RecordUsageDeadLetterFailure count r =
     (if count > 0 then r\<lparr>usageDeadLetterFailures := usageDeadLetterFailures r + of_int count\<rparr> else r)"

text \<open>\<open>Begin\<close> counts the request in; the function it returns is \<open>finish\<close>.\<close>

definition Begin :: "Registry \<Rightarrow> Registry" where
  "Begin r = r\<lparr>requests := requests r + 1, inFlight := inFlight r + 1\<rparr>"

definition count_response :: "int \<Rightarrow> (int \<times> u64) list \<Rightarrow> (int \<times> u64) list" where
  "count_response status m =
     AList.update status ((case map_of m status of None \<Rightarrow> 0 | Some n \<Rightarrow> n) + 1) m"

definition finish :: "int \<Rightarrow> duration \<Rightarrow> Registry \<Rightarrow> Registry" where
  "finish status d r =
     r\<lparr>inFlight := inFlight r - 1, durationNano := durationNano r + of_int d,
       responses := count_response status (responses r)\<rparr>"

section \<open>The text exposition\<close>

abbreviation (input) newline :: string where "newline \<equiv> [CHR 0x0A]"
abbreviation (input) dquote :: string where "dquote \<equiv> [CHR 0x22]"

definition show_u64 :: "u64 \<Rightarrow> string" where
  "show_u64 w = Itoa (uint w)"

definition metric :: "string \<Rightarrow> string \<Rightarrow> string \<Rightarrow> string list \<Rightarrow> string list" where
  "metric name help kind samples =
     (''# HELP '' @ name @ '' '' @ help) # (''# TYPE '' @ name @ '' '' @ kind) # samples"

definition response_line :: "(int \<times> u64) list \<Rightarrow> int \<Rightarrow> string" where
  "response_line m code =
     ''gateway_http_responses_total{code='' @ dquote @ Itoa code @ dquote @ ''} ''
     @ show_u64 (case map_of m code of None \<Rightarrow> 0 | Some n \<Rightarrow> n)"

definition sorted_codes :: "(int \<times> u64) list \<Rightarrow> int list" where
  "sorted_codes m = sort (map fst m)"

definition gauge :: "string \<Rightarrow> string \<Rightarrow> string \<Rightarrow> string \<Rightarrow> string list" where
  "gauge name help kind v = metric name help kind [name @ '' '' @ v]"

definition Registry_lines :: "Registry \<Rightarrow> string list" where
  "Registry_lines r = concat
    [gauge ''gateway_http_requests_total'' ''Total requests handled by protected API routes.'' ''counter'' (show_u64 (requests r)),
     gauge ''gateway_http_requests_in_flight'' ''Requests currently being handled.'' ''gauge'' (Itoa (sint (inFlight r))),
     gauge ''gateway_http_request_duration_seconds_sum'' ''Total request duration in seconds.'' ''counter''
       (FormatFixed 6 (f64 (f64 (of_int (uint (durationNano r))) / of_int time_Second))),
     metric ''gateway_http_responses_total'' ''Responses grouped by HTTP status code.'' ''counter''
       (map (response_line (responses r)) (sorted_codes (responses r))),
     gauge ''gateway_usage_queue_capacity'' ''Maximum number of usage events that can wait in memory.'' ''gauge'' (Itoa (sint (usageQueueCapacity r))),
     gauge ''gateway_usage_queue_depth'' ''Usage events currently waiting in the bounded queue.'' ''gauge'' (Itoa (sint (usageQueueDepth r))),
     gauge ''gateway_usage_events_enqueued_total'' ''Usage events accepted by the queue.'' ''counter'' (show_u64 (usageEnqueued r)),
     gauge ''gateway_usage_events_dropped_total'' ''Usage events lost to validation, backpressure, shutdown, or dead-letter failure.'' ''counter'' (show_u64 (usageDropped r)),
     gauge ''gateway_usage_retries_total'' ''Usage batch retry delays entered after storage failures.'' ''counter'' (show_u64 (usageRetries r)),
     gauge ''gateway_usage_batches_persisted_total'' ''Usage batches persisted successfully.'' ''counter'' (show_u64 (usageBatches r)),
     gauge ''gateway_usage_events_persisted_total'' ''Usage events acknowledged by idempotent batch storage.'' ''counter'' (show_u64 (usagePersisted r)),
     gauge ''gateway_usage_events_dead_lettered_total'' ''Usage events stored after exhausting normal retries.'' ''counter'' (show_u64 (usageDeadLettered r)),
     gauge ''gateway_usage_dead_letter_failures_total'' ''Usage events that could not be written to dead-letter storage.'' ''counter'' (show_u64 (usageDeadLetterFailures r))]"

text \<open>\<open>Registry.ServeHTTP\<close>: the content type it sets and the body it prints.\<close>

definition Registry_ServeHTTP :: "Registry \<Rightarrow> string \<times> string" where
  "Registry_ServeHTTP r =
     (''text/plain; version=0.0.4; charset=utf-8'', concat (map (\<lambda>l. l @ newline) (Registry_lines r)))"

section \<open>Observers\<close>

datatype observer_call =
    CapacitySet int
  | DepthSet int
  | Enqueued
  | Dropped int
  | Retried
  | BatchStored int
  | DeadLettered int
  | DeadLetterFailed int

text \<open>The registry as a \<open>usage.Observer\<close>, and the \<open>noopObserver\<close> used where none is given.\<close>

fun observe :: "observer_call \<Rightarrow> Registry \<Rightarrow> Registry" where
  "observe (CapacitySet n) r = SetUsageQueueCapacity n r"
| "observe (DepthSet n) r = SetUsageQueueDepth n r"
| "observe Enqueued r = RecordUsageEnqueued r"
| "observe (Dropped n) r = RecordUsageDropped n r"
| "observe Retried r = RecordUsageRetry r"
| "observe (BatchStored n) r = RecordUsageBatch n r"
| "observe (DeadLettered n) r = RecordUsageDeadLettered n r"
| "observe (DeadLetterFailed n) r = RecordUsageDeadLetterFailure n r"

definition noop_observe :: "observer_call \<Rightarrow> 'o \<Rightarrow> 'o" where
  "noop_observe c s = s"

text \<open>What a call adds to each counter.\<close>

fun enqueue_amount :: "observer_call \<Rightarrow> int" where
  "enqueue_amount Enqueued = 1"
| "enqueue_amount _ = 0"

fun drop_amount :: "observer_call \<Rightarrow> int" where
  "drop_amount (Dropped n) = max 0 n"
| "drop_amount _ = 0"

fun stored_amount :: "observer_call \<Rightarrow> int" where
  "stored_amount (BatchStored n) = max 0 n"
| "stored_amount _ = 0"

fun dead_amount :: "observer_call \<Rightarrow> int" where
  "dead_amount (DeadLettered n) = max 0 n"
| "dead_amount _ = 0"

definition total :: "('c \<Rightarrow> int) \<Rightarrow> 'c list \<Rightarrow> int" where
  "total f cs = sum_list (map f cs)"

lemma total_simps [simp]:
  "total f [] = 0" "total f (c # cs) = f c + total f cs" "total f (cs @ ds) = total f cs + total f ds"
  by (simp_all add: total_def)

locale usage_observer =
  fixes obs :: "observer_call \<Rightarrow> 'o \<Rightarrow> 'o"
    and enqueued dropped stored dead :: "'o \<Rightarrow> u64"
  assumes obs_enqueued: "enqueued (obs c s) = enqueued s + of_int (enqueue_amount c)"
    and obs_dropped: "dropped (obs c s) = dropped s + of_int (drop_amount c)"
    and obs_stored: "stored (obs c s) = stored s + of_int (stored_amount c)"
    and obs_dead: "dead (obs c s) = dead s + of_int (dead_amount c)"
begin

text \<open>Replaying a list of calls adds up their amounts, modulo \<open>2 ^ 64\<close>.\<close>

lemma replay_enqueued: "enqueued (fold obs cs s) = enqueued s + of_int (total enqueue_amount cs)"
  by (induction cs arbitrary: s) (simp_all add: obs_enqueued)

lemma replay_dropped: "dropped (fold obs cs s) = dropped s + of_int (total drop_amount cs)"
  by (induction cs arbitrary: s) (simp_all add: obs_dropped)

lemma replay_stored: "stored (fold obs cs s) = stored s + of_int (total stored_amount cs)"
  by (induction cs arbitrary: s) (simp_all add: obs_stored)

lemma replay_dead: "dead (fold obs cs s) = dead s + of_int (total dead_amount cs)"
  by (induction cs arbitrary: s) (simp_all add: obs_dead)

text \<open>A balance between the amounts of the calls shows in the counters.\<close>

lemma replay_balance:
  assumes "total enqueue_amount cs + k = total stored_amount cs + total dead_amount cs + total drop_amount cs"
    and "s' = fold obs cs s"
  shows "(enqueued s' - enqueued s) + of_int k
     = (stored s' - stored s) + (dead s' - dead s) + (dropped s' - dropped s)"
proof -
  have "of_int (total enqueue_amount cs + k)
      = (of_int (total stored_amount cs + total dead_amount cs + total drop_amount cs) :: u64)"
    using assms(1) by simp
  then show ?thesis
    by (simp add: assms(2) replay_enqueued replay_dropped replay_stored replay_dead)
qed

end

lemmas registry_defs = SetUsageQueueCapacity_def SetUsageQueueDepth_def RecordUsageEnqueued_def
  RecordUsageDropped_def RecordUsageRetry_def RecordUsageBatch_def RecordUsageDeadLettered_def
  RecordUsageDeadLetterFailure_def Let_def

interpretation registry: usage_observer observe usageEnqueued usageDropped usagePersisted usageDeadLettered
proof
  fix c :: observer_call and s :: Registry
  show "usageEnqueued (observe c s) = usageEnqueued s + of_int (enqueue_amount c)"
    by (cases c) (simp_all add: registry_defs)
  show "usageDropped (observe c s) = usageDropped s + of_int (drop_amount c)"
    by (cases c) (simp_all add: registry_defs)
  show "usagePersisted (observe c s) = usagePersisted s + of_int (stored_amount c)"
    by (cases c) (simp_all add: registry_defs)
  show "usageDeadLettered (observe c s) = usageDeadLettered s + of_int (dead_amount c)"
    by (cases c) (simp_all add: registry_defs)
qed

section \<open>Request accounting\<close>

text \<open>The registry's view of the requests: each begins once and finishes with a status and a duration.\<close>

datatype request_event = Started | Finished int duration

fun request_step :: "request_event \<Rightarrow> Registry \<Rightarrow> Registry" where
  "request_step Started r = Begin r"
| "request_step (Finished status d) r = finish status d r"

fun finished_with :: "int \<Rightarrow> request_event \<Rightarrow> bool" where
  "finished_with code (Finished status d) = (status = code)"
| "finished_with code Started = False"

fun duration_of :: "request_event \<Rightarrow> int" where
  "duration_of (Finished status d) = d"
| "duration_of Started = 0"

definition response_count :: "Registry \<Rightarrow> int \<Rightarrow> u64" where
  "response_count r code = (case map_of (responses r) code of None \<Rightarrow> 0 | Some n \<Rightarrow> n)"

abbreviation started_count :: "request_event list \<Rightarrow> nat" where
  "started_count es \<equiv> length (filter (\<lambda>e. e = Started) es)"

lemma response_count_finish:
  "response_count (finish status d r) code = response_count r code + (if status = code then 1 else 0)"
  by (simp add: response_count_def finish_def count_response_def AList.update_conv')

lemma fst_count_response:
  "set (map fst (count_response status m)) = insert status (set (map fst m))"
  "distinct (map fst m) \<Longrightarrow> distinct (map fst (count_response status m))"
  by (simp_all add: count_response_def AList.update_keys distinct_update flip: dom_map_of_conv_image_fst)
    (auto simp: AList.update_conv' dom_map_of_conv_image_fst)

lemma response_count_fold:
  "response_count (fold request_step es r) code
     = response_count r code + of_nat (length (filter (finished_with code) es))"
proof (induction es arbitrary: r)
  case (Cons e es)
  then show ?case by (cases e) (simp_all add: response_count_finish, simp add: response_count_def Begin_def)
qed simp

lemma counters_fold:
  "requests (fold request_step es r) = requests r + of_nat (started_count es)"
  "inFlight (fold request_step es r) = inFlight r + of_nat (started_count es)
     - of_nat (length (filter (\<lambda>e. e \<noteq> Started) es))"
  "durationNano (fold request_step es r) = durationNano r + of_int (total duration_of es)"
proof (induction es arbitrary: r)
  case (Cons e es)
  {
    case 1 then show ?case by (cases e) (simp_all add: Cons Begin_def finish_def)
  next
    case 2 then show ?case by (cases e) (simp_all add: Cons Begin_def finish_def)
  next
    case 3 then show ?case by (cases e) (simp_all add: Cons Begin_def finish_def)
  }
qed simp_all

lemma codes_fold:
  "distinct (map fst (responses r)) \<Longrightarrow>
     distinct (map fst (responses (fold request_step es r)))
     \<and> set (map fst (responses (fold request_step es r)))
        = set (map fst (responses r)) \<union> {code. \<exists>e\<in>set es. finished_with code e}"
proof (induction es arbitrary: r)
  case (Cons e es)
  then show ?case
    by (cases e) (auto simp: Begin_def finish_def fst_count_response simp del: set_map)
qed simp

text \<open>
  Request accounting.  After any interleaving of request starts and completions the registry
  holds, modulo \<open>2 ^ 64\<close>, the number of requests started, the number in flight, the sum of the
  durations, and for every status code the number of responses with that code.
\<close>

theorem registry_request_accounting:
  "requests (fold request_step es NewRegistry) = of_nat (started_count es)
   \<and> inFlight (fold request_step es NewRegistry)
       = of_nat (started_count es) - of_nat (length (filter (\<lambda>e. e \<noteq> Started) es))
   \<and> durationNano (fold request_step es NewRegistry) = of_int (total duration_of es)
   \<and> response_count (fold request_step es NewRegistry) code
       = of_nat (length (filter (finished_with code) es))"
  by (simp add: counters_fold response_count_fold) (simp add: NewRegistry_def response_count_def)

text \<open>
  C10. The exposition lists one line per status code that was answered, in increasing order: its
  label values are bounded by the codes that occurred.
\<close>

theorem exposed_codes_sorted:
  "sorted_wrt (<) (sorted_codes (responses (fold request_step es NewRegistry)))
   \<and> set (sorted_codes (responses (fold request_step es NewRegistry)))
       = {code. \<exists>e. e \<in> set es \<and> finished_with code e}"
proof -
  have "distinct (map fst (responses NewRegistry))" by (simp add: NewRegistry_def)
  from codes_fold [OF this, of es]
  show ?thesis
    by (auto simp: sorted_codes_def strict_sorted_iff NewRegistry_def)
qed

end
