(* ===== verification/Usage_Pipeline.thy ===== *)
theory Usage_Pipeline
  imports Usage_Event Metrics_Registry
begin

text \<open>
  \<open>internal/usage/pipeline.go\<close>: the bounded queue, the batch worker with its retries and dead
  letters, and shutdown.  The goroutines (any number of callers of \<open>Enqueue\<close>, the callers of
  \<open>Close\<close>, the worker \<open>run\<close>) interleave, so the pipeline is a state and a step relation
  \<open>pipeline_step\<close>: one rule per atomic action.  The store's answers and the timers are the
  relation's choices.  Observer calls are kept in the list \<open>calls\<close>; \<open>accepted\<close>, \<open>settled\<close>,
  \<open>refused\<close> and \<open>deadline_hit\<close> record the history the properties speak about and are read by no
  step.
\<close>

section \<open>Configuration\<close>

record PipelineConfig =
  QueueCapacity :: int
  BatchSize :: int
  FlushInterval :: duration
  MaxAttempts :: int
  RetryBaseDelay :: duration

definition check_config :: "bool \<Rightarrow> PipelineConfig \<Rightarrow> string option" where
  "check_config store_present cfg =
     (if \<not> store_present then Some ''usage store is nil''
      else if QueueCapacity cfg \<le> 0 then Some ''usage queue capacity must be positive''
      else if BatchSize cfg \<le> 0 \<or> BatchSize cfg > QueueCapacity cfg
        then Some ''usage batch size must be positive and no larger than queue capacity''
      else if FlushInterval cfg \<le> 0 \<or> MaxAttempts cfg \<le> 0 \<or> RetryBaseDelay cfg \<le> 0
        then Some ''usage flush interval, attempts, and retry delay must be positive''
      else None)"

section \<open>State\<close>

text \<open>A caller of \<open>Enqueue\<close> that has sent its event and still holds the read lock.\<close>

datatype enqueuer = Sent | Recorded | Measured int

text \<open>What follows a flush: the next round of the worker's loop, or its return.\<close>

datatype resume = Loop | Exit

datatype worker_pc =
    Selecting "Event list"
  | Received Event "Event list"
  | Counted int Event "Event list"
  | Persisting int "Event list" resume
  | Waiting int "Event list" resume
  | DeadLettering "Event list" resume
  | Stopped

datatype fate = Stored | Dead | Lost

record Pipeline =
  queue :: "Event list"
  closed :: bool
  cancelled :: bool
  enqueuers :: "enqueuer list"
  worker :: worker_pc
  calls :: "observer_call list"
  accepted :: "Event list"
  settled :: "(Event list \<times> fate) list"
  refused :: int
  deadline_hit :: bool

definition emit :: "observer_call list \<Rightarrow> Pipeline \<Rightarrow> Pipeline" where
  "emit cs s = s\<lparr>calls := calls s @ cs\<rparr>"

definition settle :: "Event list \<Rightarrow> fate \<Rightarrow> Pipeline \<Rightarrow> Pipeline" where
  "settle batch f s = (if batch = [] then s else s\<lparr>settled := settled s @ [(batch, f)]\<rparr>)"

definition empty_pipeline :: Pipeline where
  "empty_pipeline = \<lparr>queue = [], closed = False, cancelled = False, enqueuers = [],
     worker = Selecting [], calls = [], accepted = [], settled = [], refused = 0, deadline_hit = False\<rparr>"

definition NewPipeline :: "bool \<Rightarrow> PipelineConfig \<Rightarrow> Pipeline result" where
  "NewPipeline store_present cfg =
     (case check_config store_present cfg of
        Some err \<Rightarrow> Inl err
      | None \<Rightarrow> Inr (emit [CapacitySet (QueueCapacity cfg)] empty_pipeline))"

section \<open>Enqueue\<close>

definition refuse :: "Pipeline \<Rightarrow> Pipeline" where
  "refuse s = emit [Dropped 1] (s\<lparr>refused := refused s + 1\<rparr>)"

text \<open>The decision of \<open>Enqueue\<close>: validation, the closed flag under the read lock, the non-blocking send.\<close>

definition Enqueue_admit :: "PipelineConfig \<Rightarrow> Event \<Rightarrow> Pipeline \<Rightarrow> bool \<times> Pipeline" where
  "Enqueue_admit cfg event s =
     (if Validate event \<noteq> None then (False, refuse s)
      else if closed s then (False, refuse s)
      else if int (length (queue s)) < QueueCapacity cfg
        then (True, s\<lparr>queue := queue s @ [event], enqueuers := enqueuers s @ [Sent],
                      accepted := accepted s @ [event]\<rparr>)
      else (False, refuse s))"

text \<open>After the send: \<open>RecordUsageEnqueued\<close>, then \<open>len(p.queue)\<close>, then \<open>SetUsageQueueDepth\<close> and the unlock.\<close>

fun enqueuer_step :: "enqueuer \<Rightarrow> Pipeline \<Rightarrow> enqueuer list \<times> Pipeline" where
  "enqueuer_step Sent s = ([Recorded], emit [Enqueued] s)"
| "enqueuer_step Recorded s = ([Measured (int (length (queue s)))], s)"
| "enqueuer_step (Measured n) s = ([], emit [DepthSet n] s)"

text \<open>\<open>Enqueue\<close> run without interruption.\<close>

definition Enqueue :: "PipelineConfig \<Rightarrow> Event \<Rightarrow> Pipeline \<Rightarrow> bool \<times> Pipeline" where
  "Enqueue cfg event s =
     (case Enqueue_admit cfg event s of
        (False, s1) \<Rightarrow> (False, s1)
      | (True, s1) \<Rightarrow>
          (True, (emit [Enqueued, DepthSet (int (length (queue s1)))] s1)\<lparr>enqueuers := enqueuers s\<rparr>))"

section \<open>Close\<close>

text \<open>The body of \<open>closeOnce.Do\<close>; it runs under the write lock, so when no enqueuer holds the read lock.\<close>

definition Close_admission :: "Pipeline \<Rightarrow> Pipeline" where
  "Close_admission s = s\<lparr>closed := True\<rparr>"

text \<open>The caller's deadline expires before the worker is done: \<open>p.cancel()\<close>.\<close>

definition Close_deadline :: "Pipeline \<Rightarrow> Pipeline" where
  "Close_deadline s = s\<lparr>cancelled := True, deadline_hit := True\<rparr>"

text \<open>What \<open>Close\<close> returns once the worker is done: \<open>ctx.Err()\<close> where the deadline won the race.\<close>

definition Close_returns :: "bool \<Rightarrow> string \<Rightarrow> string option" where
  "Close_returns deadline_won ctx_err = (if deadline_won then Some ctx_err else None)"

section \<open>The worker\<close>

text \<open>Leaving \<open>flush\<close>: back to the select, or depth zero and the deferred \<open>cancel\<close> and \<open>close(done)\<close>.\<close>

fun after_flush :: "resume \<Rightarrow> Pipeline \<Rightarrow> Pipeline" where
  "after_flush Loop s = s\<lparr>worker := Selecting []\<rparr>"
| "after_flush Exit s = (emit [DepthSet 0] s)\<lparr>worker := Stopped, cancelled := True\<rparr>"

definition flush :: "resume \<Rightarrow> Event list \<Rightarrow> Pipeline \<Rightarrow> Pipeline" where
  "flush k batch s = (if batch = [] then after_flush k s else s\<lparr>worker := Persisting 1 batch k\<rparr>)"

text \<open>The cases of the worker's select: cancellation, an event, the closed and empty channel, the timer.\<close>

definition run_cancelled :: "Event list \<Rightarrow> Pipeline \<Rightarrow> Pipeline" where
  "run_cancelled batch s =
     (let dropped = int (length batch + length (queue s));
          s1 = emit ((if dropped > 0 then [Dropped dropped] else []) @ [DepthSet 0]) s
      in settle batch Lost (s1\<lparr>worker := Stopped, cancelled := True\<rparr>))"

definition run_receive :: "Event list \<Rightarrow> Event \<Rightarrow> Event list \<Rightarrow> Pipeline \<Rightarrow> Pipeline" where
  "run_receive batch event rest s = s\<lparr>queue := rest, worker := Received event batch\<rparr>"

text \<open>\<open>len(p.queue)\<close> is read after the receive, when callers of \<open>Enqueue\<close> may have run in between.\<close>

definition run_count :: "Event list \<Rightarrow> Event \<Rightarrow> Pipeline \<Rightarrow> Pipeline" where
  "run_count batch event s = s\<lparr>worker := Counted (int (length (queue s))) event batch\<rparr>"

definition run_append :: "PipelineConfig \<Rightarrow> int \<Rightarrow> Event list \<Rightarrow> Event \<Rightarrow> Pipeline \<Rightarrow> Pipeline" where
  "run_append cfg n batch event s =
     (let s1 = emit [DepthSet n] s;
          batch' = batch @ [event]
      in if int (length batch') \<ge> BatchSize cfg then flush Loop batch' s1
         else s1\<lparr>worker := Selecting batch'\<rparr>)"

text \<open>\<open>persist\<close>: one attempt's outcomes, the wait between attempts, the dead-letter write.\<close>

definition persist_ok :: "Event list \<Rightarrow> resume \<Rightarrow> Pipeline \<Rightarrow> Pipeline" where
  "persist_ok batch k s = after_flush k (settle batch Stored (emit [BatchStored (int (length batch))] s))"

definition persist_failed :: "PipelineConfig \<Rightarrow> int \<Rightarrow> Event list \<Rightarrow> resume \<Rightarrow> Pipeline \<Rightarrow> Pipeline" where
  "persist_failed cfg attempt batch k s =
     (if attempt = MaxAttempts cfg then s\<lparr>worker := DeadLettering batch k\<rparr>
      else (emit [Retried] s)\<lparr>worker := Waiting attempt batch k\<rparr>)"

definition wait_over :: "int \<Rightarrow> Event list \<Rightarrow> resume \<Rightarrow> Pipeline \<Rightarrow> Pipeline" where
  "wait_over attempt batch k s = s\<lparr>worker := Persisting (attempt + 1) batch k\<rparr>"

definition wait_cancelled :: "Event list \<Rightarrow> resume \<Rightarrow> Pipeline \<Rightarrow> Pipeline" where
  "wait_cancelled batch k s = after_flush k (settle batch Lost (emit [Dropped (int (length batch))] s))"

definition dead_letter_ok :: "Event list \<Rightarrow> resume \<Rightarrow> Pipeline \<Rightarrow> Pipeline" where
  "dead_letter_ok batch k s = after_flush k (settle batch Dead (emit [DeadLettered (int (length batch))] s))"

definition dead_letter_failed :: "Event list \<Rightarrow> resume \<Rightarrow> Pipeline \<Rightarrow> Pipeline" where
  "dead_letter_failed batch k s =
     after_flush k (settle batch Lost
       (emit [DeadLetterFailed (int (length batch)), Dropped (int (length batch))] s))"

inductive worker_step :: "PipelineConfig \<Rightarrow> Pipeline \<Rightarrow> Pipeline \<Rightarrow> bool" for cfg where
  cancelled: "worker s = Selecting batch \<Longrightarrow> cancelled s \<Longrightarrow> worker_step cfg s (run_cancelled batch s)"
| receive: "worker s = Selecting batch \<Longrightarrow> queue s = event # rest \<Longrightarrow>
    worker_step cfg s (run_receive batch event rest s)"
| counted: "worker s = Received event batch \<Longrightarrow> worker_step cfg s (run_count batch event s)"
| appended: "worker s = Counted n event batch \<Longrightarrow> worker_step cfg s (run_append cfg n batch event s)"
| drained: "worker s = Selecting batch \<Longrightarrow> queue s = [] \<Longrightarrow> closed s \<Longrightarrow>
    worker_step cfg s (flush Exit batch s)"
| timer: "worker s = Selecting batch \<Longrightarrow> worker_step cfg s (flush Loop batch s)"
| stored: "worker s = Persisting attempt batch k \<Longrightarrow> worker_step cfg s (persist_ok batch k s)"
| failed: "worker s = Persisting attempt batch k \<Longrightarrow>
    worker_step cfg s (persist_failed cfg attempt batch k s)"
| waited: "worker s = Waiting attempt batch k \<Longrightarrow> worker_step cfg s (wait_over attempt batch k s)"
| interrupted: "worker s = Waiting attempt batch k \<Longrightarrow> cancelled s \<Longrightarrow>
    worker_step cfg s (wait_cancelled batch k s)"
| buried: "worker s = DeadLettering batch k \<Longrightarrow> worker_step cfg s (dead_letter_ok batch k s)"
| unburied: "worker s = DeadLettering batch k \<Longrightarrow> worker_step cfg s (dead_letter_failed batch k s)"

inductive pipeline_step :: "PipelineConfig \<Rightarrow> Pipeline \<Rightarrow> Pipeline \<Rightarrow> bool" for cfg where
  enqueue: "pipeline_step cfg s (snd (Enqueue_admit cfg event s))"
| enqueuer: "enqueuers s = xs @ pc # ys \<Longrightarrow> enqueuer_step pc s = (pcs, s') \<Longrightarrow>
    pipeline_step cfg s (s'\<lparr>enqueuers := xs @ pcs @ ys\<rparr>)"
| close_admission: "enqueuers s = [] \<Longrightarrow> \<not> closed s \<Longrightarrow> pipeline_step cfg s (Close_admission s)"
| close_deadline: "closed s \<Longrightarrow> pipeline_step cfg s (Close_deadline s)"
| work: "worker_step cfg s s' \<Longrightarrow> pipeline_step cfg s s'"

inductive reachable :: "PipelineConfig \<Rightarrow> Pipeline \<Rightarrow> bool" for cfg where
  start: "NewPipeline True cfg = Inr s \<Longrightarrow> reachable cfg s"
| step: "reachable cfg s \<Longrightarrow> pipeline_step cfg s s' \<Longrightarrow> reachable cfg s'"

section \<open>Effects of the operations, field by field\<close>

named_theorems pipe "projections of the pipeline's operations"

lemma emit_fields [pipe]:
  "queue (emit cs s) = queue s" "closed (emit cs s) = closed s" "cancelled (emit cs s) = cancelled s"
  "enqueuers (emit cs s) = enqueuers s" "worker (emit cs s) = worker s" "calls (emit cs s) = calls s @ cs"
  "accepted (emit cs s) = accepted s" "settled (emit cs s) = settled s" "refused (emit cs s) = refused s"
  "deadline_hit (emit cs s) = deadline_hit s"
  by (simp_all add: emit_def)

lemma settle_fields [pipe]:
  "queue (settle b f s) = queue s" "closed (settle b f s) = closed s" "cancelled (settle b f s) = cancelled s"
  "enqueuers (settle b f s) = enqueuers s" "worker (settle b f s) = worker s" "calls (settle b f s) = calls s"
  "accepted (settle b f s) = accepted s"
  "settled (settle b f s) = settled s @ (if b = [] then [] else [(b, f)])" "refused (settle b f s) = refused s"
  "deadline_hit (settle b f s) = deadline_hit s"
  by (simp_all add: settle_def)

lemma after_flush_fields [pipe]:
  "queue (after_flush k s) = queue s" "closed (after_flush k s) = closed s"
  "cancelled (after_flush k s) = (cancelled s \<or> k = Exit)"
  "enqueuers (after_flush k s) = enqueuers s"
  "worker (after_flush k s) = (case k of Loop \<Rightarrow> Selecting [] | Exit \<Rightarrow> Stopped)"
  "calls (after_flush k s) = calls s @ (case k of Loop \<Rightarrow> [] | Exit \<Rightarrow> [DepthSet 0])"
  "accepted (after_flush k s) = accepted s" "settled (after_flush k s) = settled s"
  "refused (after_flush k s) = refused s" "deadline_hit (after_flush k s) = deadline_hit s"
  by (cases k; simp add: emit_fields)+

lemmas worker_ops = flush_def run_cancelled_def run_receive_def run_count_def run_append_def persist_ok_def persist_failed_def
  wait_over_def wait_cancelled_def dead_letter_ok_def dead_letter_failed_def

lemmas client_ops = Enqueue_admit_def refuse_def Close_admission_def Close_deadline_def

text \<open>The events the worker holds.\<close>

fun in_hand :: "worker_pc \<Rightarrow> Event list" where
  "in_hand (Selecting batch) = batch"
| "in_hand (Received event batch) = batch @ [event]"
| "in_hand (Counted n event batch) = batch @ [event]"
| "in_hand (Persisting attempt batch k) = batch"
| "in_hand (Waiting attempt batch k) = batch"
| "in_hand (DeadLettering batch k) = batch"
| "in_hand Stopped = []"

fun at_store :: "worker_pc \<Rightarrow> bool" where
  "at_store (Persisting attempt batch k) = True"
| "at_store (DeadLettering batch k) = True"
| "at_store _ = False"

fun resumes :: "worker_pc \<Rightarrow> resume" where
  "resumes (Persisting attempt batch k) = k"
| "resumes (Waiting attempt batch k) = k"
| "resumes (DeadLettering batch k) = k"
| "resumes _ = Loop"

section \<open>Invariants\<close>

definition flow_inv :: "Pipeline \<Rightarrow> bool" where
  "flow_inv s \<longleftrightarrow> accepted s = concat (map fst (settled s)) @ in_hand (worker s) @ queue s
     \<and> (\<forall>e\<in>set (accepted s). valid_event e)"

fun batch_ok :: "PipelineConfig \<Rightarrow> worker_pc \<Rightarrow> bool" where
  "batch_ok cfg (Selecting batch) = (int (length batch) < BatchSize cfg)"
| "batch_ok cfg (Received event batch) = (int (length batch) < BatchSize cfg)"
| "batch_ok cfg (Counted n event batch) = (int (length batch) < BatchSize cfg)"
| "batch_ok cfg (Persisting attempt batch k) =
     (batch \<noteq> [] \<and> int (length batch) \<le> BatchSize cfg \<and> 1 \<le> attempt \<and> attempt \<le> MaxAttempts cfg)"
| "batch_ok cfg (Waiting attempt batch k) =
     (batch \<noteq> [] \<and> int (length batch) \<le> BatchSize cfg \<and> 1 \<le> attempt \<and> attempt < MaxAttempts cfg)"
| "batch_ok cfg (DeadLettering batch k) = (batch \<noteq> [] \<and> int (length batch) \<le> BatchSize cfg)"
| "batch_ok cfg Stopped = True"

definition bound_inv :: "PipelineConfig \<Rightarrow> Pipeline \<Rightarrow> bool" where
  "bound_inv cfg s \<longleftrightarrow> int (length (queue s)) \<le> QueueCapacity cfg \<and> batch_ok cfg (worker s)
     \<and> (\<forall>p\<in>set (settled s). fst p \<noteq> [] \<and> int (length (fst p)) \<le> BatchSize cfg)"

definition lock_inv :: "Pipeline \<Rightarrow> bool" where
  "lock_inv s \<longleftrightarrow> (cancelled s \<longrightarrow> closed s) \<and> (closed s \<longrightarrow> enqueuers s = [])
     \<and> (cancelled s \<and> worker s \<noteq> Stopped \<longrightarrow> deadline_hit s)
     \<and> (worker s = Stopped \<longrightarrow> cancelled s \<and> (queue s = [] \<or> deadline_hit s))
     \<and> (resumes (worker s) = Exit \<longrightarrow> closed s \<and> queue s = [])"

definition valid_config :: "PipelineConfig \<Rightarrow> bool" where
  "valid_config cfg \<longleftrightarrow> check_config True cfg = None"

lemma valid_config_iff:
  "valid_config cfg \<longleftrightarrow> 0 < BatchSize cfg \<and> BatchSize cfg \<le> QueueCapacity cfg
     \<and> 0 < FlushInterval cfg \<and> 0 < MaxAttempts cfg \<and> 0 < RetryBaseDelay cfg"
  by (auto simp: valid_config_def check_config_def)

lemma flow_inv_worker: "worker_step cfg s s' \<Longrightarrow> flow_inv s \<Longrightarrow> flow_inv s'"
  by (induction rule: worker_step.induct)
    (auto simp: flow_inv_def worker_ops pipe Let_def split: resume.splits)

lemma bound_inv_worker: "worker_step cfg s s' \<Longrightarrow> valid_config cfg \<Longrightarrow> bound_inv cfg s \<Longrightarrow> bound_inv cfg s'"
  by (induction rule: worker_step.induct)
    (auto simp: bound_inv_def worker_ops pipe Let_def valid_config_iff split: resume.splits)

lemma lock_inv_worker: "worker_step cfg s s' \<Longrightarrow> lock_inv s \<Longrightarrow> lock_inv s'"
  by (induction rule: worker_step.induct)
    (auto simp: lock_inv_def worker_ops pipe Let_def split: resume.splits)

lemma enqueuer_step_fields:
  assumes "enqueuer_step pc s = (pcs, s')"
  shows "queue s' = queue s" "closed s' = closed s" "cancelled s' = cancelled s" "worker s' = worker s"
    "accepted s' = accepted s" "settled s' = settled s" "refused s' = refused s"
    "deadline_hit s' = deadline_hit s"
  using assms by (cases pc; auto simp: pipe)+

lemma flow_inv_step: "pipeline_step cfg s s' \<Longrightarrow> flow_inv s \<Longrightarrow> flow_inv s'"
proof (induction rule: pipeline_step.induct)
  case (enqueue s event)
  then show ?case by (auto simp: flow_inv_def client_ops pipe)
next
  case (enqueuer s xs pc ys pcs s')
  then show ?case by (simp add: flow_inv_def enqueuer_step_fields)
qed (auto simp: flow_inv_worker, auto simp: flow_inv_def client_ops)

lemma bound_inv_step: "pipeline_step cfg s s' \<Longrightarrow> valid_config cfg \<Longrightarrow> bound_inv cfg s \<Longrightarrow> bound_inv cfg s'"
proof (induction rule: pipeline_step.induct)
  case (enqueue s event)
  then show ?case by (auto simp: bound_inv_def client_ops pipe)
next
  case (enqueuer s xs pc ys pcs s')
  then show ?case by (simp add: bound_inv_def enqueuer_step_fields)
qed (auto simp: bound_inv_worker, auto simp: bound_inv_def client_ops)

lemma lock_inv_step: "pipeline_step cfg s s' \<Longrightarrow> lock_inv s \<Longrightarrow> lock_inv s'"
proof (induction rule: pipeline_step.induct)
  case (enqueue s event)
  then show ?case by (auto simp: lock_inv_def client_ops pipe)
next
  case (enqueuer s xs pc ys pcs s')
  then show ?case by (auto simp: lock_inv_def enqueuer_step_fields)
qed (auto simp: lock_inv_worker, auto simp: lock_inv_def client_ops)

section \<open>Back-off\<close>

abbreviation (input) retry_maximum :: int where "retry_maximum \<equiv> 30 * time_Second"

function retryDelay_loop :: "int \<Rightarrow> int \<Rightarrow> duration \<Rightarrow> duration" where
  "retryDelay_loop failedAttempt i delay =
     (if i < failedAttempt \<and> delay < retry_maximum
      then if delay > retry_maximum div 2 then retry_maximum
           else retryDelay_loop failedAttempt (i + 1) (wrap64 (delay * 2))
      else if delay > retry_maximum then retry_maximum
      else delay)"
  by pat_completeness auto
termination
  by (relation "measure (\<lambda>(failedAttempt, i, delay). nat (failedAttempt - i))") auto

declare retryDelay_loop.simps [simp del]

definition retryDelay :: "duration \<Rightarrow> int \<Rightarrow> duration" where
  "retryDelay base failedAttempt = retryDelay_loop failedAttempt 1 base"

lemma retryDelay_loop_eq:
  "0 < delay \<Longrightarrow> retryDelay_loop failed i delay = min retry_maximum (delay * 2 ^ nat (failed - i))"
proof (induction failed i delay rule: retryDelay_loop.induct)
  case (1 failed i delay)
  have grow: "delay * 1 \<le> delay * 2 ^ nat (failed - i)" using "1.prems" by (intro mult_left_mono) simp_all
  consider (stop) "\<not> (i < failed \<and> delay < retry_maximum)" | (cap) "i < failed" "delay < retry_maximum"
      "delay > retry_maximum div 2" | (double) "i < failed" "delay < retry_maximum" "\<not> delay > retry_maximum div 2"
    by blast
  then show ?case
  proof cases
    case stop
    then show ?thesis using grow by (subst retryDelay_loop.simps) (auto simp: min_def)
  next
    case cap
    have bound: "delay * 2 ^ 1 \<le> delay * 2 ^ nat (failed - i)"
      using cap "1.prems" by (intro mult_left_mono power_increasing) simp_all
    have "retry_maximum \<le> delay * 2 ^ 1" using cap by simp
    then have "retry_maximum \<le> delay * 2 ^ nat (failed - i)" using bound by (rule order_trans)
    then show ?thesis using cap by (subst retryDelay_loop.simps) (simp add: min_def)
  next
    case double
    have "wrap64 (delay * 2) = delay * 2" using double "1.prems" by (simp add: wrap64_id in_int64_def)
    moreover have "nat (failed - i) = Suc (nat (failed - (i + 1)))" using double by simp
    ultimately show ?thesis using double 1 by (subst retryDelay_loop.simps) simp
  qed
qed

section \<open>Counting\<close>

fun fail_amount :: "observer_call \<Rightarrow> int" where
  "fail_amount (DeadLetterFailed n) = max 0 n"
| "fail_amount _ = 0"

definition fated :: "fate \<Rightarrow> Event list \<times> fate \<Rightarrow> int" where
  "fated f p = (if snd p = f then int (length (fst p)) else 0)"

definition unrecorded :: "enqueuer \<Rightarrow> int" where
  "unrecorded pc = (if pc = Sent then 1 else 0)"

definition left_behind :: "Pipeline \<Rightarrow> int" where
  "left_behind s = (if worker s = Stopped then int (length (queue s)) else 0)"

definition count_inv :: "Pipeline \<Rightarrow> bool" where
  "count_inv s \<longleftrightarrow>
     total enqueue_amount (calls s) + total unrecorded (enqueuers s) = int (length (accepted s))
   \<and> total stored_amount (calls s) = total (fated Stored) (settled s)
   \<and> total dead_amount (calls s) = total (fated Dead) (settled s)
   \<and> total drop_amount (calls s) = refused s + total (fated Lost) (settled s) + left_behind s
   \<and> (\<not> deadline_hit s \<longrightarrow> total (fated Lost) (settled s) = total fail_amount (calls s))"

lemma count_inv_worker: "worker_step cfg s s' \<Longrightarrow> lock_inv s \<Longrightarrow> count_inv s \<Longrightarrow> count_inv s'"
  by (induction rule: worker_step.induct)
    (auto simp: count_inv_def lock_inv_def left_behind_def fated_def worker_ops pipe Let_def split: resume.splits)

lemma count_inv_step: "pipeline_step cfg s s' \<Longrightarrow> lock_inv s \<Longrightarrow> count_inv s \<Longrightarrow> count_inv s'"
proof (induction rule: pipeline_step.induct)
  case (enqueue s event)
  then show ?case by (auto simp: count_inv_def lock_inv_def left_behind_def unrecorded_def client_ops pipe)
next
  case (enqueuer s xs pc ys pcs s')
  then show ?case
    by (cases pc) (auto simp: count_inv_def left_behind_def unrecorded_def pipe)
qed (auto simp: count_inv_worker, auto simp: count_inv_def left_behind_def client_ops)

text \<open>The gauge of the queue's depth reads zero once the worker has returned.\<close>

definition gauge_inv :: "Pipeline \<Rightarrow> bool" where
  "gauge_inv s \<longleftrightarrow> (worker s = Stopped \<longrightarrow> usageQueueDepth (fold observe (calls s) NewRegistry) = 0)"

lemma depth_of_dropped [simp]: "usageQueueDepth (RecordUsageDropped n r) = usageQueueDepth r"
  by (simp add: RecordUsageDropped_def)

lemma depth_of_set [simp]: "usageQueueDepth (SetUsageQueueDepth n r) = of_int n"
  by (simp add: SetUsageQueueDepth_def)

lemma gauge_inv_worker: "worker_step cfg s s' \<Longrightarrow> gauge_inv s \<Longrightarrow> gauge_inv s'"
  by (induction rule: worker_step.induct)
    (auto simp: gauge_inv_def worker_ops pipe Let_def split: resume.splits)

lemma gauge_inv_step: "pipeline_step cfg s s' \<Longrightarrow> lock_inv s \<Longrightarrow> gauge_inv s \<Longrightarrow> gauge_inv s'"
proof (induction rule: pipeline_step.induct)
  case (enqueue s event)
  then show ?case by (auto simp: gauge_inv_def lock_inv_def client_ops pipe)
next
  case (enqueuer s xs pc ys pcs s')
  then show ?case by (auto simp: gauge_inv_def lock_inv_def enqueuer_step_fields)
qed (auto simp: gauge_inv_worker, auto simp: gauge_inv_def client_ops)

definition pipeline_inv :: "PipelineConfig \<Rightarrow> Pipeline \<Rightarrow> bool" where
  "pipeline_inv cfg s \<longleftrightarrow> flow_inv s \<and> bound_inv cfg s \<and> lock_inv s \<and> count_inv s \<and> gauge_inv s"

lemma reachable_valid_config: "reachable cfg s \<Longrightarrow> valid_config cfg"
  by (induction rule: reachable.induct)
    (auto simp: NewPipeline_def valid_config_def split: option.splits)

lemma pipeline_inv_start: "NewPipeline True cfg = Inr s \<Longrightarrow> pipeline_inv cfg s"
  by (auto simp: NewPipeline_def empty_pipeline_def pipeline_inv_def flow_inv_def bound_inv_def lock_inv_def
      count_inv_def gauge_inv_def left_behind_def emit_def check_config_def split: option.splits if_splits)

lemma reachable_inv: "reachable cfg s \<Longrightarrow> pipeline_inv cfg s"
proof (induction rule: reachable.induct)
  case (step s s')
  then show ?case
    using reachable_valid_config [OF step.hyps(1)]
    by (auto simp: pipeline_inv_def intro: flow_inv_step bound_inv_step lock_inv_step count_inv_step gauge_inv_step)
qed (rule pipeline_inv_start)

section \<open>Draining\<close>

text \<open>
  An upper bound on the worker's remaining steps once admission is closed: eight steps and two per
  attempt for each queued event, and what is left for the batch in hand.
\<close>

fun batch_work :: "nat \<Rightarrow> worker_pc \<Rightarrow> nat" where
  "batch_work m (Selecting batch) = (if batch = [] then 1 else 2 * m + 5)"
| "batch_work m (Received event batch) = 2 * m + 8"
| "batch_work m (Counted n event batch) = 2 * m + 7"
| "batch_work m (Persisting attempt batch k) = 2 * (m - nat attempt) + 4"
| "batch_work m (Waiting attempt batch k) = 2 * (m - nat attempt) + 3"
| "batch_work m (DeadLettering batch k) = 2"
| "batch_work m Stopped = 0"

definition work_left :: "PipelineConfig \<Rightarrow> Pipeline \<Rightarrow> nat" where
  "work_left cfg s = length (queue s) * (2 * nat (MaxAttempts cfg) + 8)
     + batch_work (nat (MaxAttempts cfg)) (worker s)"

lemma worker_step_decreases:
  "worker_step cfg s s' \<Longrightarrow> bound_inv cfg s \<Longrightarrow> valid_config cfg \<Longrightarrow> s' = s \<or> work_left cfg s' < work_left cfg s"
  by (induction rule: worker_step.induct)
    (auto simp: work_left_def bound_inv_def worker_ops pipe Let_def valid_config_iff split: resume.splits)

lemma closed_step_keeps:
  assumes "pipeline_step cfg s s'" and "pipeline_inv cfg s" and "valid_config cfg" and "closed s"
  shows "closed s' \<and> work_left cfg s' \<le> work_left cfg s"
  using assms
proof (induction rule: pipeline_step.induct)
  case (work s s')
  then have "s' = s \<or> work_left cfg s' < work_left cfg s"
    by (intro worker_step_decreases) (simp_all add: pipeline_inv_def)
  moreover have "closed s'" using work
    by (induction rule: worker_step.induct) (auto simp: worker_ops pipe Let_def)
  ultimately show ?case by auto
qed (auto simp: work_left_def client_ops pipe pipeline_inv_def lock_inv_def)

lemma worker_progress:
  assumes "pipeline_inv cfg s" and "closed s" and "worker s \<noteq> Stopped"
  shows "\<exists>s'. worker_step cfg s s' \<and> s' \<noteq> s"
proof (cases "worker s")
  case (Selecting batch)
  show ?thesis
  proof (cases "queue s")
    case Nil
    have "worker (flush Exit batch s) \<noteq> Selecting batch" by (simp add: worker_ops pipe)
    then show ?thesis using worker_step.drained [OF Selecting Nil assms(2)] Selecting by metis
  next
    case (Cons event rest)
    have "worker (run_receive batch event rest s) \<noteq> Selecting batch" by (simp add: worker_ops)
    then show ?thesis using worker_step.receive [OF Selecting Cons] Selecting by metis
  qed
next
  case (Received event batch)
  have "worker (run_count batch event s) \<noteq> Received event batch" by (simp add: worker_ops)
  then show ?thesis using worker_step.counted [OF Received] Received by metis
next
  case (Counted n event batch)
  have "worker (run_append cfg n batch event s) \<noteq> Counted n event batch" by (simp add: worker_ops Let_def pipe)
  then show ?thesis using worker_step.appended [OF Counted] Counted by metis
next
  case (Persisting attempt batch k)
  have "worker (persist_ok batch k s) \<noteq> Persisting attempt batch k"
    by (simp add: worker_ops pipe split: resume.splits)
  then show ?thesis using worker_step.stored [OF Persisting] Persisting by metis
next
  case (Waiting attempt batch k)
  have "worker (wait_over attempt batch k s) \<noteq> Waiting attempt batch k" by (simp add: worker_ops)
  then show ?thesis using worker_step.waited [OF Waiting] Waiting by metis
next
  case (DeadLettering batch k)
  have "worker (dead_letter_ok batch k s) \<noteq> DeadLettering batch k"
    by (simp add: worker_ops pipe split: resume.splits)
  then show ?thesis using worker_step.buried [OF DeadLettering] DeadLettering by metis
qed (use assms in simp)

text \<open>Runs of the whole pipeline, with the number of worker steps that changed something.\<close>

inductive pipeline_run :: "PipelineConfig \<Rightarrow> nat \<Rightarrow> Pipeline \<Rightarrow> Pipeline \<Rightarrow> bool" for cfg where
  here: "pipeline_run cfg 0 s s"
| later: "pipeline_run cfg n s s' \<Longrightarrow> pipeline_step cfg s' s'' \<Longrightarrow>
    pipeline_run cfg (if worker_step cfg s' s'' \<and> s'' \<noteq> s' then Suc n else n) s s''"

lemma pipeline_run_reachable: "pipeline_run cfg n s s' \<Longrightarrow> reachable cfg s \<Longrightarrow> reachable cfg s'"
  by (induction rule: pipeline_run.induct) (auto intro: reachable.step)

lemma pipeline_run_work:
  "pipeline_run cfg n s s' \<Longrightarrow> reachable cfg s \<Longrightarrow> closed s \<Longrightarrow> closed s' \<and> n + work_left cfg s' \<le> work_left cfg s"
proof (induction rule: pipeline_run.induct)
  case (later n s s' s'')
  then have r: "reachable cfg s'" and IH: "closed s'" "n + work_left cfg s' \<le> work_left cfg s"
    by (auto intro: pipeline_run_reachable)
  note inv = reachable_inv [OF r] reachable_valid_config [OF r]
  have "closed s'' \<and> work_left cfg s'' \<le> work_left cfg s'"
    by (rule closed_step_keeps [OF later.hyps(2) inv IH(1)])
  moreover have "work_left cfg s'' < work_left cfg s'" if "worker_step cfg s' s''" "s'' \<noteq> s'"
    using worker_step_decreases [OF that(1)] inv that(2) by (auto simp: pipeline_inv_def)
  ultimately show ?case using IH by auto
qed simp

lemma drain_exists: "reachable cfg s \<Longrightarrow> closed s \<Longrightarrow> \<exists>n s'. pipeline_run cfg n s s' \<and> worker s' = Stopped"
proof (induction "work_left cfg s" arbitrary: s rule: less_induct)
  case less
  note inv = reachable_inv [OF less.prems(1)] reachable_valid_config [OF less.prems(1)]
  show ?case
  proof (cases "worker s = Stopped")
    case False
    then obtain s' where s': "worker_step cfg s s'" "s' \<noteq> s"
      using worker_progress [OF inv(1) less.prems(2)] by blast
    then have step: "pipeline_step cfg s s'" by (simp add: pipeline_step.work)
    have "work_left cfg s' < work_left cfg s"
      using worker_step_decreases [OF s'(1)] inv s'(2) by (auto simp: pipeline_inv_def)
    moreover have "closed s'" using closed_step_keeps [OF step inv less.prems(2)] by simp
    ultimately obtain n t where "pipeline_run cfg n s' t" "worker t = Stopped"
      using less.hyps [of s'] reachable.step [OF less.prems(1) step] by blast
    moreover have "\<exists>m. pipeline_run cfg m s t" using \<open>pipeline_run cfg n s' t\<close> step
      by (induction rule: pipeline_run.induct) (blast intro: pipeline_run.intros)+
    ultimately show ?thesis by blast
  qed (auto intro: pipeline_run.here)
qed

section \<open>Uninterrupted calls\<close>

lemma Enqueue_client_steps: 
  "(\<lambda>s s'. pipeline_step cfg s s' \<and> worker s' = worker s \<and> closed s' = closed s)\<^sup>*\<^sup>* s (snd (Enqueue cfg event s))"
proof (cases "fst (Enqueue_admit cfg event s)")
  case False
  then have "snd (Enqueue cfg event s) = snd (Enqueue_admit cfg event s)"
    by (auto simp: Enqueue_def split: prod.splits bool.splits)
  moreover have "worker (snd (Enqueue_admit cfg event s)) = worker s" "closed (snd (Enqueue_admit cfg event s)) = closed s"
    by (simp_all add: client_ops pipe)
  ultimately show ?thesis using pipeline_step.enqueue [of cfg s event] by (intro r_into_rtranclp) simp
next
  case True
  define s1 where "s1 = snd (Enqueue_admit cfg event s)"
  define s2 where "s2 = (emit [Enqueued] s1)\<lparr>enqueuers := enqueuers s @ [Recorded]\<rparr>"
  define s3 where "s3 = s2\<lparr>enqueuers := enqueuers s @ [Measured (int (length (queue s1)))]\<rparr>"
  define s4 where "s4 = (emit [DepthSet (int (length (queue s1)))] s3)\<lparr>enqueuers := enqueuers s\<rparr>"
  have e1: "enqueuers s1 = enqueuers s @ [Sent]"
    using True by (auto simp: s1_def Enqueue_admit_def split: if_splits)
  have w: "worker s1 = worker s" "worker s2 = worker s1" "worker s3 = worker s2" "worker s4 = worker s3"
    "closed s1 = closed s" "closed s2 = closed s1" "closed s3 = closed s2" "closed s4 = closed s3"
    by (simp_all add: s1_def s2_def s3_def s4_def client_ops pipe)
  have "pipeline_step cfg s s1" unfolding s1_def by (rule pipeline_step.enqueue)
  moreover have "pipeline_step cfg s1 s2"
    using pipeline_step.enqueuer [where xs = "enqueuers s" and ys = "[]" and s = s1] e1 by (simp add: s2_def)
  moreover have "pipeline_step cfg s2 s3"
    using pipeline_step.enqueuer [where xs = "enqueuers s" and ys = "[]" and s = s2]
    by (simp add: s2_def s3_def pipe)
  moreover have "pipeline_step cfg s3 s4"
    using pipeline_step.enqueuer [where xs = "enqueuers s" and ys = "[]" and s = s3
      and pc = "Measured (int (length (queue s1)))"]
    by (simp add: s3_def s4_def pipe)
  moreover have "snd (Enqueue cfg event s) = s4"
    using True by (auto simp: Enqueue_def s4_def s3_def s2_def s1_def emit_def split: prod.splits bool.splits)
  ultimately show ?thesis using w by (simp add: converse_rtranclp_into_rtranclp)
qed

lemma Enqueue_steps: "(pipeline_step cfg)\<^sup>*\<^sup>* s (snd (Enqueue cfg event s))"
  using Enqueue_client_steps [of cfg s event] by (rule rtranclp_mono [THEN predicate2D, rotated]) auto

lemma reachable_Enqueue: "reachable cfg s \<Longrightarrow> reachable cfg (snd (Enqueue cfg event s))"
  using Enqueue_steps [of cfg s event]
  by (induction rule: rtranclp_induct) (auto intro: reachable.step)

text \<open>A run for the witnesses: one event is accepted, admission closes, the batch is flushed and stored.\<close>

definition sample_config :: PipelineConfig where
  "sample_config = \<lparr>QueueCapacity = 2, BatchSize = 2, FlushInterval = 1, MaxAttempts = 3, RetryBaseDelay = 1\<rparr>"

definition sample_event :: Event where
  "sample_event = \<lparr>evID = ''e'', evRequestID = ''r'', evAPIKeyID = ''k'', evClientID = ''c'',
     evRoute = ''/api/users'', evMethod = ''GET'', evStatusCode = 200, evDurationMicros = 1500,
     evResponseBytes = 2, evOccurredAt = 0\<rparr>"

definition sample_open :: Pipeline where
  "sample_open = emit [CapacitySet 2] empty_pipeline"

lemma reachable_sample_open: "reachable sample_config sample_open"
  by (rule reachable.start) (simp add: NewPipeline_def check_config_def sample_config_def sample_open_def)

lemma reachable_work: "reachable cfg s \<Longrightarrow> worker_step cfg s s' \<Longrightarrow> reachable cfg s'"
  by (rule reachable.step [OF _ pipeline_step.work])

definition sample_at :: "Event list \<Rightarrow> bool \<Rightarrow> worker_pc \<Rightarrow> observer_call list \<Rightarrow> (Event list \<times> fate) list \<Rightarrow> Pipeline" where
  "sample_at q cl w cs st = \<lparr>queue = q, closed = cl, cancelled = (w = Stopped), enqueuers = [], worker = w,
     calls = [CapacitySet 2, Enqueued, DepthSet 1] @ cs, accepted = [sample_event], settled = st, refused = 0,
     deadline_hit = False\<rparr>"

lemma valid_sample_event: "valid_event sample_event"
  by (simp add: valid_event_iff sample_event_def TrimSpace_graphic graphic_def HasPrefix_def zero_time_def)

lemmas sample_defs = sample_at_def sample_config_def worker_ops settle_def emit_def Let_def

definition sample_done :: Pipeline where
  "sample_done = sample_at [] True Stopped [DepthSet 0, BatchStored 1, DepthSet 0] [([sample_event], Stored)]"

text \<open>The run up to its call of the store, for every property of states that the steps before it keep.\<close>

lemma sample_run:
  assumes "P sample_open"
    and quiet: "\<And>s s'. P s \<Longrightarrow> pipeline_step sample_config s s' \<Longrightarrow> worker s' = worker s \<or> \<not> at_store (worker s) \<Longrightarrow> P s'"
  shows "P (sample_at [sample_event] True (Selecting []) [] [])"
    and "P (sample_at [] True (Persisting 1 [sample_event] Exit) [DepthSet 0] [])"
proof -
  let ?e = sample_event
  have work: "P s'" if "P s" "worker_step sample_config s s'" "\<not> at_store (worker s)" for s s'
    using quiet [OF that(1) pipeline_step.work [OF that(2)]] that(3) by simp
  have "P (snd (Enqueue sample_config ?e sample_open))"
    using Enqueue_client_steps assms(1) by (induction rule: rtranclp_induct) (auto intro: quiet)
  then have sent: "P (sample_at [?e] False (Selecting []) [] [])"
    by (simp add: Enqueue_def Enqueue_admit_def valid_sample_event sample_open_def sample_config_def
        empty_pipeline_def sample_at_def emit_def)
  have "P (Close_admission (sample_at [?e] False (Selecting []) [] []))"
    by (rule quiet [OF sent pipeline_step.close_admission]) (simp_all add: sample_at_def)
  then show closed: "P (sample_at [?e] True (Selecting []) [] [])" by (simp add: sample_at_def Close_admission_def)
  have "P (run_receive [] ?e [] (sample_at [?e] True (Selecting []) [] []))"
    by (rule work [OF closed worker_step.receive]) (simp_all add: sample_at_def)
  then have "P (sample_at [] True (Received ?e []) [] [])" by (simp add: sample_defs)
  then have "P (run_count [] ?e (sample_at [] True (Received ?e []) [] []))"
    by (rule work [OF _ worker_step.counted]) (simp_all add: sample_at_def)
  then have "P (sample_at [] True (Counted 0 ?e []) [] [])" by (simp add: sample_defs)
  then have "P (run_append sample_config 0 [] ?e (sample_at [] True (Counted 0 ?e []) [] []))"
    by (rule work [OF _ worker_step.appended]) (simp_all add: sample_at_def)
  then have "P (sample_at [] True (Selecting [?e]) [DepthSet 0] [])" by (simp add: sample_defs)
  then have "P (flush Exit [?e] (sample_at [] True (Selecting [?e]) [DepthSet 0] []))"
    by (rule work [OF _ worker_step.drained]) (simp_all add: sample_at_def)
  then show "P (sample_at [] True (Persisting 1 [?e] Exit) [DepthSet 0] [])" by (simp add: sample_defs)
qed

lemma sample_stored:
  "persist_ok [sample_event] Exit (sample_at [] True (Persisting 1 [sample_event] Exit) [DepthSet 0] []) = sample_done"
  by (simp add: sample_done_def sample_defs)

lemmas reachable_sample_closed = sample_run(1) [of "reachable sample_config", OF reachable_sample_open reachable.step]

lemma reachable_sample_done: "reachable sample_config sample_done"
  unfolding sample_stored [symmetric]
  by (rule reachable_work [OF sample_run(2) worker_step.stored])
    (auto intro: reachable_sample_open reachable.step simp: sample_at_def)

lemma sample_done_fields: "worker sample_done = Stopped" "accepted sample_done = [sample_event]"
  by (simp_all add: sample_done_def sample_at_def)

section \<open>Properties\<close>

text \<open>
  C6. Conservation and order: in every reachable state, under every interleaving of callers, worker and
  shutdown, the events \<open>Enqueue\<close> accepted are exactly the batches the worker has dealt with, the
  events in its hands and those still in the queue, in the order of acceptance.  No event is lost,
  duplicated or reordered between the components, and every one of them passed \<open>Validate\<close>.
\<close>

theorem pipeline_conserves_events:
  assumes "reachable cfg s"
  shows "accepted s = concat (map fst (settled s)) @ in_hand (worker s) @ queue s
    \<and> (\<forall>e\<in>set (accepted s). valid_event e)"
  using reachable_inv [OF assms] by (simp add: pipeline_inv_def flow_inv_def)

theorem pipeline_conserves_events_witness:
  "reachable sample_config sample_done
   \<and> accepted sample_done = concat (map fst (settled sample_done)) @ in_hand (worker sample_done) @ queue sample_done"
  using pipeline_conserves_events [OF reachable_sample_done] reachable_sample_done by simp

text \<open>
  C15. The exported counters add up: once the worker has returned, every event the registry counted as
  enqueued, and every refused one, is counted exactly once as persisted, dead-lettered or dropped
  (modulo \<open>2 ^ 64\<close>, the counters' width), and the depth gauge reads zero, with or without an
  expired shutdown deadline.
\<close>

theorem shutdown_counters_balance:
  assumes "reachable cfg s" and "worker s = Stopped" and "r = fold observe (calls s) NewRegistry"
  shows "usageEnqueued r + of_int (refused s) = usagePersisted r + usageDeadLettered r + usageDropped r
    \<and> usageEnqueued r = of_nat (length (accepted s)) \<and> usageQueueDepth r = 0"
proof -
  have inv: "pipeline_inv cfg s" using assms(1) by (rule reachable_inv)
  then have idle: "enqueuers s = []" using assms(2) by (auto simp: pipeline_inv_def lock_inv_def)
  have split: "int (length (concat (map fst ss))) = total (fated Stored) ss + total (fated Dead) ss + total (fated Lost) ss"
    for ss by (induction ss) (auto simp: fated_def intro: fate.exhaust)
  have "int (length (accepted s)) = int (length (concat (map fst (settled s)))) + int (length (queue s))"
    using inv assms(2) by (simp add: pipeline_inv_def flow_inv_def)
  then have "total enqueue_amount (calls s) + refused s
      = total stored_amount (calls s) + total dead_amount (calls s) + total drop_amount (calls s)"
    using inv idle assms(2) split [of "settled s"]
    by (simp add: pipeline_inv_def count_inv_def left_behind_def)
  note balance = registry.replay_balance [OF this assms(3)]
  have "usageEnqueued r = of_int (total enqueue_amount (calls s))"
    unfolding assms(3) registry.replay_enqueued by (simp add: NewRegistry_def)
  also have "total enqueue_amount (calls s) = int (length (accepted s))"
    using inv idle by (simp add: pipeline_inv_def count_inv_def)
  finally show ?thesis
    using balance inv assms(2,3) by (simp add: NewRegistry_def pipeline_inv_def gauge_inv_def)
qed

theorem shutdown_counters_balance_witness:
  "usageEnqueued (fold observe (calls sample_done) NewRegistry) = of_nat (length [sample_event])
   \<and> usageQueueDepth (fold observe (calls sample_done) NewRegistry) = 0"
  using shutdown_counters_balance [OF reachable_sample_done sample_done_fields(1) refl] sample_done_fields(2)
  by presburger

text \<open>
  A shutdown whose deadline does not expire loses nothing: the queue has been drained, and unless a
  dead-letter write failed (which the metrics report), every accepted event sits in a batch that was
  stored or dead-lettered.
\<close>

theorem graceful_shutdown_lossless:
  assumes "reachable cfg s" and "worker s = Stopped" and "\<not> deadline_hit s"
  shows "queue s = [] \<and> accepted s = concat (map fst (settled s))
    \<and> total (fated Lost) (settled s) = total fail_amount (calls s)
    \<and> ((\<forall>n. DeadLetterFailed n \<notin> set (calls s)) \<longrightarrow> (\<forall>p\<in>set (settled s). snd p \<noteq> Lost))"
proof -
  have inv: "pipeline_inv cfg s" using assms(1) by (rule reachable_inv)
  have lost: "total (fated Lost) (settled s) = total fail_amount (calls s)"
    using inv assms(3) by (simp add: pipeline_inv_def count_inv_def)
  have none: "(\<forall>n. DeadLetterFailed n \<notin> set cs) \<Longrightarrow> total fail_amount cs = 0" for cs
  proof (induction cs)
    case (Cons c cs)
    then show ?case by (cases c) auto
  qed simp
  have pos: "total (fated f) ss \<ge> 0" for f ss by (induction ss) (simp_all add: fated_def)
  have no_lost: "total (fated Lost) ss = 0 \<Longrightarrow> \<forall>p\<in>set ss. fst p \<noteq> [] \<Longrightarrow> \<forall>p\<in>set ss. snd p \<noteq> Lost" for ss
  proof (induction ss)
    case (Cons p ss)
    then have len: "0 < int (length (fst p))" by simp
    have sum: "fated Lost p + total (fated Lost) ss = 0" using Cons.prems(1) by simp
    have "snd p \<noteq> Lost"
    proof
      assume "snd p = Lost"
      then have "fated Lost p = int (length (fst p))" by (simp add: fated_def)
      then show False using len sum pos [of Lost ss] by linarith
    qed
    then show ?case using Cons sum by (simp add: fated_def [of Lost p])
  qed simp
  show ?thesis
    using inv assms lost none [of "calls s"] no_lost [of "settled s"]
    by (auto simp: pipeline_inv_def flow_inv_def lock_inv_def bound_inv_def)
qed

theorem graceful_shutdown_lossless_witness:
  "accepted sample_done = concat (map fst (settled sample_done)) \<and> list_all (\<lambda>p. snd p \<noteq> Lost) (settled sample_done)
   \<and> total (fated Lost) (settled sample_done) = 0"
proof -
  note lossless = graceful_shutdown_lossless [OF reachable_sample_done]
  have "\<forall>n. DeadLetterFailed n \<notin> set (calls sample_done)" "total fail_amount (calls sample_done) = 0"
    by (simp_all add: sample_done_def sample_at_def total_def)
  then show ?thesis using lossless by (simp add: list_all_iff sample_done_fields sample_done_def sample_at_def)
qed

text \<open>
  C25. Memory and effort are bounded: the queue never exceeds its capacity, a batch handed to the store is
  never empty and never larger than \<open>BatchSize\<close>, and no batch is attempted more than
  \<open>MaxAttempts\<close> times.
\<close>

theorem pipeline_bounds:
  assumes "reachable cfg s"
  shows "int (length (queue s)) \<le> QueueCapacity cfg
    \<and> int (length (in_hand (worker s))) \<le> BatchSize cfg
    \<and> (\<forall>p\<in>set (settled s). fst p \<noteq> [] \<and> int (length (fst p)) \<le> BatchSize cfg)
    \<and> (\<forall>attempt batch k. worker s = Persisting attempt batch k \<longrightarrow>
         batch \<noteq> [] \<and> 1 \<le> attempt \<and> attempt \<le> MaxAttempts cfg)"
proof -
  have inv: "bound_inv cfg s" using reachable_inv [OF assms] by (simp add: pipeline_inv_def)
  then have "int (length (in_hand (worker s))) \<le> BatchSize cfg"
    using reachable_valid_config [OF assms] by (cases "worker s") (auto simp: bound_inv_def valid_config_iff)
  then show ?thesis using inv by (auto simp: bound_inv_def)
qed

theorem pipeline_bounds_witness:
  "int (length (queue sample_done)) \<le> QueueCapacity sample_config
   \<and> int (length (in_hand (worker sample_done))) \<le> BatchSize sample_config"
  using pipeline_bounds [OF reachable_sample_done] by simp

text \<open>
  C9. Shutdown terminates: after admission is closed the worker can always take a step until it has
  returned, and no run of the pipeline (callers that are refused and an expiring deadline included)
  contains more than \<open>work_left\<close> effective worker steps; so the worker returns, and \<open>Close\<close> with it.
\<close>

theorem close_terminates:
  assumes "reachable cfg s" and "closed s"
  shows "(\<forall>n s'. pipeline_run cfg n s s' \<longrightarrow> n \<le> work_left cfg s
           \<and> (worker s' = Stopped \<or> (\<exists>s''. worker_step cfg s' s'' \<and> s'' \<noteq> s')))
    \<and> (\<exists>n s'. pipeline_run cfg n s s' \<and> worker s' = Stopped)"
proof (intro conjI allI impI)
  fix n s' assume run: "pipeline_run cfg n s s'"
  have work: "closed s' \<and> n + work_left cfg s' \<le> work_left cfg s"
    by (rule pipeline_run_work [OF run assms])
  then show "n \<le> work_left cfg s" by simp
  show "worker s' = Stopped \<or> (\<exists>s''. worker_step cfg s' s'' \<and> s'' \<noteq> s')"
    using worker_progress [OF reachable_inv [OF pipeline_run_reachable [OF run assms(1)]]] work by blast
qed (rule drain_exists [OF assms])

theorem close_terminates_witness:
  "\<exists>n s'. pipeline_run sample_config n (sample_at [sample_event] True (Selecting []) [] []) s' \<and> worker s' = Stopped"
  using close_terminates [OF reachable_sample_closed] by (simp add: sample_at_def)

text \<open>
  \<open>Enqueue\<close> never blocks and decides at once: it accepts exactly the valid events that find
  admission open and room in the queue, appends them at the back, and counts every other one as
  dropped; a call is a sequence of steps of the pipeline.
\<close>

theorem enqueue_decides:
  "fst (Enqueue cfg event s) = (valid_event event \<and> \<not> closed s \<and> int (length (queue s)) < QueueCapacity cfg)
   \<and> queue (snd (Enqueue cfg event s)) = queue s @ (if fst (Enqueue cfg event s) then [event] else [])
   \<and> calls (snd (Enqueue cfg event s)) = calls s @ (if fst (Enqueue cfg event s)
        then [Enqueued, DepthSet (int (length (queue s)) + 1)] else [Dropped 1])
   \<and> (pipeline_step cfg)\<^sup>*\<^sup>* s (snd (Enqueue cfg event s))"
  by (simp add: Enqueue_steps) (simp add: Enqueue_def Enqueue_admit_def refuse_def emit_def)

text \<open>
  The back-off doubles from the base delay and is capped at thirty seconds; no intermediate product
  overflows, whatever the number of failed attempts.
\<close>

theorem retry_delay_doubles_capped:
  assumes "0 < base"
  shows "retryDelay base failedAttempt = min (30 * time_Second) (base * 2 ^ nat (failedAttempt - 1))"
  using retryDelay_loop_eq [OF assms] by (simp add: retryDelay_def)

theorem retry_delay_doubles_capped_witness:
  "retryDelay 100000000 4 = 800000000 \<and> retryDelay 100000000 64 = 30 * time_Second"
  by (simp add: retry_delay_doubles_capped)

end
