(* ===== verification/Gateway_Handler.thy ===== *)
theory Gateway_Handler
  imports Http_Response Rate_Limiter Auth_Service Usage_Pipeline
begin

text \<open>
  \<open>internal/gateway/handler.go\<close>: the middleware chain and the routes.  A handler is a function from
  the request and the state of the exchange (the status recorder, the captured principal, the calls
  made to the limiter and to the upstream services) to that state and a flag for a panic.  The reverse
  proxy of \<open>net/http/httputil\<close> is written out as far as the gateway uses it: the director, the removal
  of hop-by-hop headers, informational and final responses, the copying of the body and the panic on a
  broken body.  What the upstream services answer, the authenticator, the limiter, the clock and the
  entropy are arguments.  Request paths contain no percent-encoding, and protocol upgrades end the
  model's view of the exchange.
\<close>

section \<open>Requests, replies and dependencies\<close>

record http_request =
  rq_method :: gostring
  rq_path :: gostring
  rq_query :: gostring
  rq_host :: gostring
  rq_header :: headers
  rq_remote :: "gostring option"
  rq_id :: "gostring option"
  rq_principal :: "Principal option"
  rq_capture :: bool

record target_url =
  tg_scheme :: gostring
  tg_host :: gostring
  tg_path :: gostring
  tg_query :: gostring

datatype ending = Complete | Broken

record reply =
  rp_early :: "(int \<times> headers) list"
  rp_status :: int
  rp_header :: headers
  rp_body :: "gostring list"
  rp_end :: ending

datatype upstream_answer = Unreachable string | Answered reply

type_synonym upstream = "gostring \<Rightarrow> target_url \<Rightarrow> http_request \<Rightarrow> upstream_answer"

record HealthCheck =
  hc_name :: gostring
  hc_ping :: "unit result"

record handler =
  h_cfg :: Config
  h_limiter :: "(Request \<Rightarrow> Decision result) option"
  h_auth :: "(gostring \<Rightarrow> gostring \<Rightarrow> auth_error + Principal) option"
  h_readiness :: "HealthCheck list"
  h_upstream :: upstream
  h_user :: target_url
  h_order :: target_url

text \<open>The state of one exchange inside \<open>instrument\<close>.\<close>

record exchange =
  recorder :: statusRecorder
  captured :: Principal
  asked :: "Request list"
  sent :: "(gostring \<times> http_request) list"

type_synonym api_handler = "http_request \<Rightarrow> exchange \<Rightarrow> bool \<times> exchange"

definition on_recorder :: "(statusRecorder \<Rightarrow> statusRecorder) \<Rightarrow> exchange \<Rightarrow> exchange" where
  "on_recorder f x = x\<lparr>recorder := f (recorder x)\<rparr>"

text \<open>\<open>writeJSON\<close> on the recorder, after which the handler returns.\<close>

definition answer :: "int \<Rightarrow> (gostring \<times> gostring) list \<Rightarrow> exchange \<Rightarrow> bool \<times> exchange" where
  "answer code payload x = (False, on_recorder (recordJSON code payload) x)"

definition set_header :: "gostring \<Rightarrow> gostring \<Rightarrow> exchange \<Rightarrow> exchange" where
  "set_header k v = on_recorder (recorder_header (hset k v))"

definition requestIDFromContext :: "http_request \<Rightarrow> gostring" where
  "requestIDFromContext r = (case rq_id r of None \<Rightarrow> [] | Some i \<Rightarrow> i)"

definition routeKey :: "gostring \<Rightarrow> gostring" where
  "routeKey path =
     (if path = ''/api/users'' \<or> HasPrefix path ''/api/users/'' then ''/api/users''
      else if path = ''/api/orders'' \<or> HasPrefix path ''/api/orders/'' then ''/api/orders''
      else ''/api/unknown'')"

section \<open>The reverse proxy\<close>

definition singleJoiningSlash :: "gostring \<Rightarrow> gostring \<Rightarrow> gostring" where
  "singleJoiningSlash a b =
     (let aslash = (a \<noteq> [] \<and> last a = CHR ''/''); bslash = HasPrefix b ''/''
      in if aslash \<and> bslash then a @ tl b
         else if \<not> aslash \<and> \<not> bslash then a @ ''/'' @ b
         else a @ b)"

text \<open>The director of \<open>NewSingleHostReverseProxy\<close> and the one \<open>newProxy\<close> wraps around it.\<close>

definition original_director :: "target_url \<Rightarrow> http_request \<Rightarrow> http_request" where
  "original_director target r =
     r\<lparr>rq_path := singleJoiningSlash (tg_path target) (rq_path r),
       rq_query := (if tg_query target = [] \<or> rq_query r = [] then tg_query target @ rq_query r
                    else tg_query target @ ''&'' @ rq_query r)\<rparr>"

definition Director :: "target_url \<Rightarrow> http_request \<Rightarrow> http_request" where
  "Director target r =
     (let r1 = (original_director target r)\<lparr>rq_host := tg_host target\<rparr>
      in r1\<lparr>rq_header := hset ''X-Gateway-Request-ID'' (requestIDFromContext r)
               (hset ''X-Forwarded-Host'' (rq_host r) (rq_header r1))\<rparr>)"

definition trim_ows :: "gostring \<Rightarrow> gostring" where
  "trim_ows s = rev (dropWhile (\<lambda>c. c \<in> set [CHR '' '', CHR 0x09]) (rev (dropWhile (\<lambda>c. c \<in> set [CHR '' '', CHR 0x09]) s)))"

definition connection_tokens :: "headers \<Rightarrow> gostring list" where
  "connection_tokens h = map trim_ows (concat (map (split_on (CHR '','')) (hvalues h ''Connection'')))"

definition hopHeaders :: "gostring list" where
  "hopHeaders = [''Connection'', ''Proxy-Connection'', ''Keep-Alive'', ''Proxy-Authenticate'',
     ''Proxy-Authorization'', ''Te'', ''Trailer'', ''Transfer-Encoding'', ''Upgrade'']"

definition removeHopByHopHeaders :: "headers \<Rightarrow> headers" where
  "removeHopByHopHeaders h =
     fold hdel hopHeaders (fold hdel (filter (\<lambda>t. t \<noteq> []) (connection_tokens h)) h)"

definition upgradeType :: "headers \<Rightarrow> gostring" where
  "upgradeType h =
     (if list_ex (\<lambda>t. map to_lower t = ''upgrade'') (connection_tokens h) then hget ''Upgrade'' h else [])"

definition printable :: "char \<Rightarrow> bool" where
  "printable c \<longleftrightarrow> 32 \<le> (of_char c :: nat) \<and> (of_char c :: nat) \<le> 126"

definition forward_headers :: "http_request \<Rightarrow> http_request \<Rightarrow> http_request" where
  "forward_headers r out =
     (let up = upgradeType (rq_header out);
          h1 = removeHopByHopHeaders (rq_header out);
          h2 = (if list_ex (\<lambda>v. list_ex (\<lambda>t. map to_lower (trim_ows t) = ''trailers'') (split_on (CHR '','') v)) (hvalues (rq_header r) ''Te'')
                then hset ''Te'' ''trailers'' h1 else h1);
          h3 = (if up \<noteq> [] then hset ''Upgrade'' up (hset ''Connection'' ''Upgrade'' h2) else h2);
          h4 = (case rq_remote r of None \<Rightarrow> h3
                | Some ip \<Rightarrow>
                    (let prior = hvalues h3 ''X-Forwarded-For''
                     in hset ''X-Forwarded-For''
                          (concat (map (\<lambda>p. p @ '', '') prior) @ ip) h3));
          h5 = (if map_of h4 ''User-Agent'' = None then hset ''User-Agent'' [] h4 else h4)
      in out\<lparr>rq_header := h5\<rparr>)"

text \<open>\<open>Got1xxResponse\<close>: the headers of an informational response are sent with it and cleared.\<close>

definition early_response :: "int \<times> headers \<Rightarrow> bool \<times> exchange \<Rightarrow> bool \<times> exchange" where
  "early_response e px =
     (case px of (panic, x) \<Rightarrow>
        if panic then px
        else let r1 = recorder_header (hcopy (snd e)) (recorder x);
                 (p, r2) = recorder_WriteHeader (fst e) r1
             in (p, x\<lparr>recorder := recorder_header (\<lambda>h. []) r2\<rparr>))"

text \<open>\<open>copyResponse\<close>: stops at a short write; a short write or a broken body is a panic.\<close>

fun copy_body :: "gostring list \<Rightarrow> ending \<Rightarrow> statusRecorder \<Rightarrow> bool \<times> statusRecorder" where
  "copy_body [] e r = (e = Broken, r)"
| "copy_body (b # bs) e r =
     (let (n, r1) = recorder_Write b r
      in if n \<noteq> int (length b) then (True, r1) else copy_body bs e r1)"

definition ErrorHandler :: "exchange \<Rightarrow> bool \<times> exchange" where
  "ErrorHandler x = answer 502 [(''error'', ''upstream service unavailable'')] x"

definition deliver :: "gostring \<Rightarrow> http_request \<Rightarrow> reply \<Rightarrow> exchange \<Rightarrow> bool \<times> exchange" where
  "deliver service out rp x =
     (case fold early_response (rp_early rp) (False, x) of (p0, x0) \<Rightarrow>
      if p0 then (True, x0)
      else if rp_status rp = 101 then
        (if map to_lower (upgradeType (rq_header out)) \<noteq> map to_lower (upgradeType (rp_header rp))
         then ErrorHandler x0
         else (False, on_recorder (\<lambda>r. r\<lparr>inner := (inner r)\<lparr>rw_status := Some 101\<rparr>\<rparr>) x0))
      else
        let h = hset ''X-Upstream-Service'' service (removeHopByHopHeaders (rp_header rp));
            r1 = recorder_header (hcopy h) (recorder x0);
            (p2, r2) = recorder_WriteHeader (rp_status rp) r1
        in if p2 then (True, x0\<lparr>recorder := r2\<rparr>)
           else let (p3, r3) = copy_body (rp_body rp) (rp_end rp) r2 in (p3, x0\<lparr>recorder := r3\<rparr>))"

definition proxy :: "handler \<Rightarrow> gostring \<Rightarrow> target_url \<Rightarrow> api_handler" where
  "proxy h service target r x =
     (let directed = Director target r;
          out = forward_headers r directed;
          x1 = x\<lparr>sent := sent x @ [(service, out)]\<rparr>
      in if \<not> list_all printable (upgradeType (rq_header directed)) then ErrorHandler x
         else case h_upstream h service target out of
           Unreachable err \<Rightarrow> ErrorHandler x1
         | Answered rp \<Rightarrow> deliver service out rp x1)"

section \<open>The protected chain\<close>

definition route :: "handler \<Rightarrow> api_handler" where
  "route h r x =
     (if rq_path r = ''/api/users'' \<or> HasPrefix (rq_path r) ''/api/users/''
        then proxy h ''user-service'' (h_user h) r x
      else if rq_path r = ''/api/orders'' \<or> HasPrefix (rq_path r) ''/api/orders/''
        then proxy h ''order-service'' (h_order h) r x
      else answer 404 [(''error'', ''API route not found'')] x)"

text \<open>\<open>time.Time.Unix\<close> rounds down to the second.\<close>

definition decision_headers :: "Principal \<Rightarrow> Decision \<Rightarrow> exchange \<Rightarrow> exchange" where
  "decision_headers p d x =
     set_header ''X-RateLimit-Policy''
         (FormatInt (BurstCapacity p) 10 @ '';r='' @ FormatFixed 0 (f64 (of_int (RatePerSecond p))))
       (set_header ''X-RateLimit-Reset'' (FormatInt (ResetAt d div time_Second) 10)
         (set_header ''X-RateLimit-Remaining'' (FormatInt (Remaining d) 10)
           (set_header ''X-RateLimit-Limit'' (FormatInt (Limit d) 10) x)))"

definition retry_seconds :: "duration \<Rightarrow> int" where
  "retry_seconds retryAfter =
     (let seconds = wrap64 (wrap64 (retryAfter + time_Second) - 1) sdiv time_Second in if seconds < 1 then 1 else seconds)"

definition rateLimit :: "handler \<Rightarrow> api_handler \<Rightarrow> api_handler" where
  "rateLimit h next_handler r x =
     (case h_limiter h of
        None \<Rightarrow> answer 503 [(''error'', ''rate limiter unavailable'')] x
      | Some allow \<Rightarrow>
     (case rq_principal r of
        None \<Rightarrow> answer 500 [(''error'', ''authenticated principal missing'')] x
      | Some p \<Rightarrow>
     let q = \<lparr>Identity = KeyID p, rlRoute = routeKey (rq_path r), rlRatePerSecond = RatePerSecond p,
              rlBurstCapacity = BurstCapacity p\<rparr>;
         x1 = x\<lparr>asked := asked x @ [q]\<rparr>
     in case allow q of
        Inl err \<Rightarrow>
          if RateLimitFailOpen (h_cfg h) then next_handler r x1
          else answer 503 [(''error'', ''rate limiter unavailable'')] x1
      | Inr d \<Rightarrow>
          let x2 = decision_headers p d x1
          in if \<not> Allowed d
             then answer 429 [(''error'', ''rate limit exceeded'')]
                    (set_header ''Retry-After'' (FormatInt (retry_seconds (RetryAfter d)) 10) x2)
             else next_handler r x2))"

definition authenticate :: "handler \<Rightarrow> api_handler \<Rightarrow> api_handler" where
  "authenticate h next_handler r x =
     (let candidate = hget ''X-API-Key'' (rq_header r) in
      case h_auth h of
        None \<Rightarrow> answer 503 [(''error'', ''authentication service unavailable'')] x
      | Some auth \<Rightarrow>
     (case auth candidate (routeKey (rq_path r)) of
        Inl ErrInvalidKey \<Rightarrow>
          answer 401 [(''error'', ''missing or invalid API key'')] (set_header ''WWW-Authenticate'' ''ApiKey'' x)
      | Inl (OtherError err) \<Rightarrow> answer 503 [(''error'', ''authentication service unavailable'')] x
      | Inr p \<Rightarrow>
          next_handler (r\<lparr>rq_principal := Some p\<rparr>) (if rq_capture r then x\<lparr>captured := p\<rparr> else x)))"

definition recoverPanic :: "api_handler \<Rightarrow> api_handler" where
  "recoverPanic next_handler r x =
     (case next_handler r x of (panic, x1) \<Rightarrow>
        if panic then answer 500 [(''error'', ''internal server error'')] x1 else (False, x1))"

section \<open>Instrumentation\<close>

text \<open>What one request reads from its surroundings: clocks and entropy.\<close>

record ambient =
  am_now :: int
  am_started :: int
  am_duration :: duration
  am_entropy :: "8 word list result"

text \<open>What the gateway shares between requests: the metrics and the usage pipeline (\<open>None\<close> for a nil recorder).\<close>

record shared =
  sh_metrics :: Registry
  sh_usage :: "Pipeline option"

definition usage_event :: "gostring \<Rightarrow> http_request \<Rightarrow> Principal \<Rightarrow> statusRecorder \<Rightarrow> int \<Rightarrow> duration \<Rightarrow> Event" where
  "usage_event eventID r p rec started d =
     \<lparr>evID = eventID, evRequestID = requestIDFromContext r, evAPIKeyID = KeyID p, evClientID = ClientID p,
      evRoute = routeKey (rq_path r), evMethod = rq_method r, evStatusCode = status rec,
      evDurationMicros = d sdiv 1000, evResponseBytes = bytes rec, evOccurredAt = started\<rparr>"

definition enqueueUsage ::
  "PipelineConfig \<Rightarrow> ambient \<Rightarrow> http_request \<Rightarrow> Principal \<Rightarrow> statusRecorder \<Rightarrow> Pipeline option \<Rightarrow> Pipeline option"
where
  "enqueueUsage cfg am r p rec usage =
     (case usage of
        None \<Rightarrow> None
      | Some pl \<Rightarrow>
          if KeyID p = [] \<or> ClientID p = [] then Some pl
          else case NewEventID (am_entropy am) of
            Inl err \<Rightarrow> Some pl
          | Inr eventID \<Rightarrow> Some (snd (Enqueue cfg (usage_event eventID r p rec (am_started am) (am_duration am)) pl)))"

definition instrument ::
  "PipelineConfig \<Rightarrow> ambient \<Rightarrow> api_handler \<Rightarrow> http_request \<Rightarrow> response \<Rightarrow> shared \<Rightarrow> exchange \<times> shared"
where
  "instrument cfg am next_handler r w g =
     (let r1 = r\<lparr>rq_capture := True\<rparr>;
          x0 = \<lparr>recorder = new_recorder w, captured = no_principal, asked = [], sent = []\<rparr>;
          g1 = g\<lparr>sh_metrics := Begin (sh_metrics g)\<rparr>;
          x = snd (next_handler r1 x0);
          g2 = g1\<lparr>sh_metrics := finish (status (recorder x)) (am_duration am) (sh_metrics g1)\<rparr>
      in (x, g2\<lparr>sh_usage := enqueueUsage cfg am r1 (captured x) (recorder x) (sh_usage g2)\<rparr>))"

definition newRequestID :: "ambient \<Rightarrow> gostring" where
  "newRequestID am = FormatInt (am_now am) 36"

definition requestID ::
  "ambient \<Rightarrow> (http_request \<Rightarrow> response \<Rightarrow> shared \<Rightarrow> exchange \<times> shared)
    \<Rightarrow> http_request \<Rightarrow> response \<Rightarrow> shared \<Rightarrow> exchange \<times> shared"
where
  "requestID am next_handler r w g =
     (let id0 = TrimSpace (hget ''X-Request-ID'' (rq_header r));
          id1 = (if id0 = [] then newRequestID am else id0)
      in next_handler (r\<lparr>rq_id := Some id1\<rparr>) (response_header (hset ''X-Request-ID'' id1) w) g)"

text \<open>The chain \<open>NewHandler\<close> assembles under \<open>/api/\<close>.\<close>

definition protected_chain :: "handler \<Rightarrow> api_handler" where
  "protected_chain h = recoverPanic (authenticate h (rateLimit h (route h)))"

definition api :: "handler \<Rightarrow> PipelineConfig \<Rightarrow> ambient \<Rightarrow> http_request \<Rightarrow> response \<Rightarrow> shared \<Rightarrow> exchange \<times> shared" where
  "api h cfg am = requestID am (instrument cfg am (protected_chain h))"

section \<open>Operational endpoints and dispatch\<close>

definition live :: "response \<Rightarrow> response" where
  "live w = respondJSON 200 [(''status'', ''ok'')] w"

fun first_failing :: "HealthCheck list \<Rightarrow> gostring option" where
  "first_failing [] = None"
| "first_failing (c # cs) = (case hc_ping c of Inl err \<Rightarrow> Some (hc_name c) | Inr u \<Rightarrow> first_failing cs)"

definition ready :: "handler \<Rightarrow> response \<Rightarrow> response" where
  "ready h w =
     (if h_readiness h = []
      then respondJSON 503 [(''error'', ''dependencies are not configured''), (''status'', ''not ready'')] w
      else case first_failing (h_readiness h) of
        Some name \<Rightarrow> respondJSON 503 [(''error'', name @ '' is unavailable''), (''status'', ''not ready'')] w
      | None \<Rightarrow> respondJSON 200 [(''status'', ''ready'')] w)"

definition not_found :: "response \<Rightarrow> response" where
  "not_found w = respondJSON 404 [(''error'', ''route not found'')] w"

text \<open>\<open>http.ServeMux\<close>: the path is cleaned, a changed path is redirected to, and the registered patterns decide.\<close>

definition clean_step :: "gostring \<Rightarrow> gostring list \<Rightarrow> gostring list" where
  "clean_step seg acc =
     (if seg = [] \<or> seg = ''.'' then acc else if seg = ''..'' then tl acc else seg # acc)"

definition rooted_clean :: "gostring \<Rightarrow> gostring" where
  "rooted_clean p =
     (case rev (fold clean_step (split_on (CHR ''/'') p) []) of
        [] \<Rightarrow> ''/'' | segs \<Rightarrow> concat (map (\<lambda>s. CHR ''/'' # s) segs))"

definition cleanPath :: "gostring \<Rightarrow> gostring" where
  "cleanPath path =
     (if path = [] then ''/''
      else let p = (if hd path \<noteq> CHR ''/'' then CHR ''/'' # path else path); np = rooted_clean p
        in if last p = CHR ''/'' \<and> np \<noteq> ''/'' then np @ ''/'' else np)"

datatype endpoint = Live | Ready | Metrics | Api | NotFound | Redirect gostring

definition match_pattern :: "gostring \<Rightarrow> gostring \<Rightarrow> endpoint" where
  "match_pattern m path =
     (if path = ''/health/live'' \<and> m \<in> {''GET'', ''HEAD''} then Live
      else if path = ''/health/ready'' \<and> m \<in> {''GET'', ''HEAD''} then Ready
      else if path = ''/metrics'' \<and> m \<in> {''GET'', ''HEAD''} then Metrics
      else if HasPrefix path ''/api/'' then Api
      else NotFound)"

definition dispatch :: "gostring \<Rightarrow> gostring \<Rightarrow> endpoint" where
  "dispatch m path =
     (let p = (if m = ''CONNECT'' then path else cleanPath path)
      in if p = ''/api'' then Redirect ''/api/''
         else if p \<noteq> path then Redirect p
         else match_pattern m p)"

text \<open>\<open>NewHandler\<close>: the targets must be absolute URLs; \<open>parse\<close> is \<open>url.Parse\<close>.\<close>

definition check_target :: "(gostring \<Rightarrow> target_url result) \<Rightarrow> gostring \<Rightarrow> gostring \<Rightarrow> target_url result" where
  "check_target parse name raw =
     (case parse raw of
        Inl err \<Rightarrow> Inl (''parse '' @ name @ '': '' @ err)
      | Inr t \<Rightarrow> if tg_scheme t = [] \<or> tg_host t = [] then Inl (name @ '' must be an absolute URL'') else Inr t)"

text \<open>A nil registry is replaced by a fresh one; the registry and the usage recorder are the shared state of the requests.\<close>

record Dependencies =
  deps_Config :: Config
  deps_Limiter :: "(Request \<Rightarrow> Decision result) option"
  deps_Auth :: "(gostring \<Rightarrow> gostring \<Rightarrow> auth_error + Principal) option"
  deps_Readiness :: "HealthCheck list"
  deps_Metrics :: "Registry option"
  deps_Usage :: "Pipeline option"

definition NewHandler ::
  "(gostring \<Rightarrow> target_url result) \<Rightarrow> upstream \<Rightarrow> Dependencies \<Rightarrow> (handler \<times> shared) result"
where
  "NewHandler parse ups deps =
     (let cfg = deps_Config deps in
      case check_target parse ''USER_SERVICE_URL'' (UserServiceURL cfg) of Inl err \<Rightarrow> Inl err | Inr user \<Rightarrow>
      case check_target parse ''ORDER_SERVICE_URL'' (OrderServiceURL cfg) of Inl err \<Rightarrow> Inl err | Inr orders \<Rightarrow>
      Inr (\<lparr>h_cfg = cfg, h_limiter = deps_Limiter deps, h_auth = deps_Auth deps, h_readiness = deps_Readiness deps,
            h_upstream = ups, h_user = user, h_order = orders\<rparr>,
           \<lparr>sh_metrics = (case deps_Metrics deps of None \<Rightarrow> NewRegistry | Some r \<Rightarrow> r), sh_usage = deps_Usage deps\<rparr>))"

text \<open>
  The registry as it is exposed: the pipeline's observer calls and the requests update disjoint fields,
  so their interleaving does not matter.
\<close>

definition exposed_registry :: "shared \<Rightarrow> Registry" where
  "exposed_registry g = fold observe (case sh_usage g of None \<Rightarrow> [] | Some pl \<Rightarrow> calls pl) (sh_metrics g)"

text \<open>The mux the handler is mounted in; \<open>None\<close> where the mux redirects and no handler of the gateway runs.\<close>

definition ServeHTTP :: "handler \<Rightarrow> PipelineConfig \<Rightarrow> ambient \<Rightarrow> http_request \<Rightarrow> shared \<Rightarrow> (response \<times> shared) option" where
  "ServeHTTP h cfg am r g =
     (let w = new_response (rq_method r = ''HEAD'')
      in case dispatch (rq_method r) (rq_path r) of
           Live \<Rightarrow> Some (live w, g)
         | Ready \<Rightarrow> Some (ready h w, g)
         | Metrics \<Rightarrow>
             (case Registry_ServeHTTP (exposed_registry g) of (ctype, body) \<Rightarrow>
               Some (snd (Write body (response_header (hset ''Content-Type'' ctype) w)), g))
         | Api \<Rightarrow> (case api h cfg am r w g of (x, g') \<Rightarrow> Some (inner (recorder x), g'))
         | NotFound \<Rightarrow> Some (not_found w, g)
         | Redirect p \<Rightarrow> None)"

section \<open>The abstract gate\<close>

text \<open>What the chain promises before any routing: a verdict from the key, the route and the limiter's decision.\<close>

datatype verdict = Refuse int gostring | Pass Principal

definition limit_request :: "Principal \<Rightarrow> gostring \<Rightarrow> Request" where
  "limit_request p path = \<lparr>Identity = KeyID p, rlRoute = routeKey path, rlRatePerSecond = RatePerSecond p,
     rlBurstCapacity = BurstCapacity p\<rparr>"

definition admission :: "handler \<Rightarrow> Principal \<Rightarrow> gostring \<Rightarrow> verdict" where
  "admission h p path =
     (case h_limiter h of
        None \<Rightarrow> Refuse 503 ''rate limiter unavailable''
      | Some allow \<Rightarrow>
          (case allow (limit_request p path) of
             Inl err \<Rightarrow> if RateLimitFailOpen (h_cfg h) then Pass p else Refuse 503 ''rate limiter unavailable''
           | Inr d \<Rightarrow> if Allowed d then Pass p else Refuse 429 ''rate limit exceeded''))"

definition gate :: "handler \<Rightarrow> gostring \<Rightarrow> gostring \<Rightarrow> verdict" where
  "gate h key path =
     (case h_auth h of
        None \<Rightarrow> Refuse 503 ''authentication service unavailable''
      | Some auth \<Rightarrow>
          (case auth key (routeKey path) of
             Inl ErrInvalidKey \<Rightarrow> Refuse 401 ''missing or invalid API key''
           | Inl (OtherError err) \<Rightarrow> Refuse 503 ''authentication service unavailable''
           | Inr p \<Rightarrow> admission h p path))"

definition authenticated :: "handler \<Rightarrow> gostring \<Rightarrow> gostring \<Rightarrow> Principal option" where
  "authenticated h key path =
     (case h_auth h of None \<Rightarrow> None
      | Some auth \<Rightarrow> (case auth key (routeKey path) of Inl err \<Rightarrow> None | Inr p \<Rightarrow> Some p))"

section \<open>Facts on the exchange\<close>

named_theorems xch "projections of the exchange's updates"

lemma on_recorder_fields [xch]:
  "recorder (on_recorder f x) = f (recorder x)" "captured (on_recorder f x) = captured x"
  "asked (on_recorder f x) = asked x" "sent (on_recorder f x) = sent x"
  by (simp_all add: on_recorder_def)

lemma set_header_fields [xch]:
  "recorder (set_header k v x) = recorder_header (hset k v) (recorder x)" "captured (set_header k v x) = captured x"
  "asked (set_header k v x) = asked x" "sent (set_header k v x) = sent x"
  by (simp_all add: set_header_def xch)

lemma answer_fields [xch]:
  "fst (answer code payload x) = False" "recorder (snd (answer code payload x)) = recordJSON code payload (recorder x)"
  "captured (snd (answer code payload x)) = captured x" "asked (snd (answer code payload x)) = asked x"
  "sent (snd (answer code payload x)) = sent x"
  by (simp_all add: answer_def xch)

lemma decision_headers_fields [xch]:
  "captured (decision_headers p d x) = captured x" "asked (decision_headers p d x) = asked x"
  "sent (decision_headers p d x) = sent x"
  by (simp_all add: decision_headers_def xch)

text \<open>The headers the gate sets, in the canonical spelling of their keys.\<close>

definition gate_keys :: "gostring set" where
  "gate_keys = {''Www-Authenticate'', ''X-Ratelimit-Limit'', ''X-Ratelimit-Remaining'', ''X-Ratelimit-Reset'',
     ''X-Ratelimit-Policy'', ''Retry-After''}"

text \<open>\<open>g\<close> is a sequence of header updates that touches only these keys.\<close>

definition gate_update :: "(headers \<Rightarrow> headers) \<Rightarrow> bool" where
  "gate_update f \<longleftrightarrow> (\<forall>h k. k \<notin> gate_keys \<longrightarrow> hvalues (f h) k = hvalues h k)"

lemma gate_update_hget: "gate_update f \<Longrightarrow> canonical k \<notin> gate_keys \<Longrightarrow> hget k (f h) = hget k h"
  by (simp add: gate_update_def hget_def)

lemma gate_update_id: "gate_update (\<lambda>h. h)"
  by (simp add: gate_update_def)

lemma gate_update_hset: "canonical k \<in> gate_keys \<Longrightarrow> gate_update f \<Longrightarrow> gate_update (\<lambda>h. hset k v (f h))"
  by (auto simp: gate_update_def hset_def hvalues_update)

lemma recorder_header_comp: "recorder_header f (recorder_header g r) = recorder_header (\<lambda>h. f (g h)) r"
  by (simp add: recorder_header_def)

lemma recorder_header_id: "recorder_header (\<lambda>h. h) r = r"
  by (simp add: recorder_header_def)

lemma canonical_gate_keys:
  "canonical ''WWW-Authenticate'' \<in> gate_keys" "canonical ''X-RateLimit-Limit'' \<in> gate_keys"
  "canonical ''X-RateLimit-Remaining'' \<in> gate_keys" "canonical ''X-RateLimit-Reset'' \<in> gate_keys"
  "canonical ''X-RateLimit-Policy'' \<in> gate_keys" "canonical ''Retry-After'' \<in> gate_keys"
  by code_simp+

lemma canonical_other_keys:
  "canonical ''Content-Length'' \<notin> gate_keys" "canonical ''X-Request-ID'' \<notin> gate_keys"
  "canonical ''Content-Type'' \<noteq> canonical ''X-Request-ID''" "canonical ''X-Request-ID'' \<noteq> canonical ''Content-Length''"
  by code_simp+

lemma decision_headers_recorder:
  "\<exists>f. gate_update f \<and> recorder (decision_headers p d x) = recorder_header f (recorder x)"
  unfolding decision_headers_def set_header_fields recorder_header_comp
  by (rule exI, rule conjI [rotated], rule refl) (intro gate_update_hset canonical_gate_keys gate_update_id)

lemma rateLimit_refuse:
  assumes "admission h p (rq_path r) = Refuse code msg" and "rq_principal r = Some p"
  shows "\<exists>f. gate_update f \<and> fst (rateLimit h next_handler r x) = False
    \<and> recorder (snd (rateLimit h next_handler r x)) = recordJSON code [(''error'', msg)] (recorder_header f (recorder x))
    \<and> sent (snd (rateLimit h next_handler r x)) = sent x \<and> captured (snd (rateLimit h next_handler r x)) = captured x"
proof (cases "h_limiter h")
  case None
  then show ?thesis using assms gate_update_id
    by (intro exI [of _ "\<lambda>h. h"]) (simp add: rateLimit_def admission_def xch recorder_header_id)
next
  case (Some allow)
  note lim = Some
  show ?thesis
  proof (cases "allow (limit_request p (rq_path r))")
    case (Inl err)
    then show ?thesis using assms lim gate_update_id
      by (intro exI [of _ "\<lambda>h. h"])
        (simp add: rateLimit_def admission_def limit_request_def xch recorder_header_id split: if_splits)
  next
    case (Inr d)
    let ?x1 = "x\<lparr>asked := asked x @ [limit_request p (rq_path r)]\<rparr>"
    let ?s = "FormatInt (retry_seconds (RetryAfter d)) 10"
    obtain f where f: "gate_update f" "recorder (decision_headers p d ?x1) = recorder_header f (recorder x)"
      using decision_headers_recorder [of p d ?x1] by auto
    have d: "\<not> Allowed d" "code = 429" "msg = ''rate limit exceeded''"
      using assms(1) lim Inr by (auto simp: admission_def split: if_splits)
    have eq: "rateLimit h next_handler r x = answer 429 [(''error'', ''rate limit exceeded'')]
        (set_header ''Retry-After'' ?s (decision_headers p d ?x1))"
      using Inr lim assms(2) d(1) by (simp add: rateLimit_def limit_request_def Let_def)
    show ?thesis
      unfolding eq using f d gate_update_hset [OF canonical_gate_keys(6) f(1), of ?s]
      by (intro exI [of _ "\<lambda>h. hset ''Retry-After'' ?s (f h)"]) (simp add: xch recorder_header_comp)
  qed
qed

lemma rateLimit_pass:
  assumes "admission h p (rq_path r) = Pass q" and "rq_principal r = Some p"
  shows "q = p \<and> (\<exists>f x1. gate_update f \<and> rateLimit h next_handler r x = next_handler r x1
    \<and> recorder x1 = recorder_header f (recorder x) \<and> sent x1 = sent x \<and> captured x1 = captured x
    \<and> asked x1 = asked x @ [limit_request p (rq_path r)])"
proof -
  obtain allow where lim: "h_limiter h = Some allow" and q: "q = p"
    using assms(1) by (auto simp: admission_def split: option.splits sum.splits if_splits)
  let ?x1 = "x\<lparr>asked := asked x @ [limit_request p (rq_path r)]\<rparr>"
  show ?thesis
  proof (cases "allow (limit_request p (rq_path r))")
    case (Inl err)
    then have "rateLimit h next_handler r x = next_handler r ?x1"
      using assms lim by (simp add: rateLimit_def admission_def limit_request_def split: if_splits)
    then show ?thesis using q gate_update_id recorder_header_id [of "recorder x"]
      by (intro conjI exI [of _ "\<lambda>h. h"] exI [of _ ?x1]) simp_all
  next
    case (Inr d)
    then have "rateLimit h next_handler r x = next_handler r (decision_headers p d ?x1)"
      using assms lim by (simp add: rateLimit_def admission_def limit_request_def Let_def split: if_splits)
    then show ?thesis using q decision_headers_recorder [of p d ?x1]
      by (auto intro!: exI [of _ "decision_headers p d ?x1"] simp: xch)
  qed
qed

lemma recoverPanic_returns: "\<not> fst (next_handler r x) \<Longrightarrow> recoverPanic next_handler r x = next_handler r x"
  by (auto simp: recoverPanic_def split: prod.splits)

lemma chain_refuse:
  assumes "gate h (hget ''X-API-Key'' (rq_header r)) (rq_path r) = Refuse code msg"
  shows "\<exists>f. gate_update f
    \<and> recorder (snd (protected_chain h r x)) = recordJSON code [(''error'', msg)] (recorder_header f (recorder x))
    \<and> sent (snd (protected_chain h r x)) = sent x
    \<and> captured (snd (protected_chain h r x)) =
        (case authenticated h (hget ''X-API-Key'' (rq_header r)) (rq_path r) of
           None \<Rightarrow> captured x | Some p \<Rightarrow> if rq_capture r then p else captured x)"
proof (cases "authenticated h (hget ''X-API-Key'' (rq_header r)) (rq_path r)")
  case None
  then have "authenticate h n r x = answer code [(''error'', msg)]
      (if code = 401 then set_header ''WWW-Authenticate'' ''ApiKey'' x else x)" for n
    using assms by (auto simp: authenticate_def gate_def authenticated_def split: option.splits sum.splits auth_error.splits)
  then have eq: "protected_chain h r x = answer code [(''error'', msg)]
      (if code = 401 then set_header ''WWW-Authenticate'' ''ApiKey'' x else x)"
    by (simp add: protected_chain_def recoverPanic_def answer_def)
  show ?thesis
  proof (cases "code = 401")
    case True
    then show ?thesis unfolding eq using gate_update_hset [OF canonical_gate_keys(1) gate_update_id, of "''ApiKey''"] None
      by (intro exI [of _ "hset ''WWW-Authenticate'' ''ApiKey''"]) (simp add: xch)
  next
    case False
    then show ?thesis unfolding eq using gate_update_id None
      by (intro exI [of _ "\<lambda>h. h"]) (simp add: xch recorder_header_id)
  qed
next
  case (Some p)
  define r' where "r' = r\<lparr>rq_principal := Some p\<rparr>"
  define x' where "x' = (if rq_capture r then x\<lparr>captured := p\<rparr> else x)"
  have adm: "admission h p (rq_path r') = Refuse code msg" and p: "rq_principal r' = Some p"
    using assms Some by (auto simp: r'_def gate_def authenticated_def split: option.splits sum.splits)
  have "authenticate h n r x = n r' x'" for n
    using Some by (auto simp: r'_def x'_def authenticate_def authenticated_def split: option.splits sum.splits)
  then have eq: "protected_chain h r x = recoverPanic (\<lambda>r x. rateLimit h (route h) r' x') r x"
    by (simp add: protected_chain_def recoverPanic_def)
  obtain f where f: "gate_update f" "\<not> fst (rateLimit h (route h) r' x')"
    "recorder (snd (rateLimit h (route h) r' x')) = recordJSON code [(''error'', msg)] (recorder_header f (recorder x'))"
    "sent (snd (rateLimit h (route h) r' x')) = sent x'" "captured (snd (rateLimit h (route h) r' x')) = captured x'"
    using rateLimit_refuse [OF adm p, of "route h" x'] by auto
  have x': "recorder x' = recorder x" "sent x' = sent x" "captured x' = (if rq_capture r then p else captured x)"
    by (simp_all add: x'_def)
  have "protected_chain h r x = rateLimit h (route h) r' x'"
    unfolding eq using f(2) by (rule recoverPanic_returns)
  then show ?thesis using f x' Some by auto
qed

lemma chain_pass:
  assumes "gate h (hget ''X-API-Key'' (rq_header r)) (rq_path r) = Pass p"
  shows "authenticated h (hget ''X-API-Key'' (rq_header r)) (rq_path r) = Some p \<and> (\<exists>f x1. gate_update f
    \<and> recorder x1 = recorder_header f (recorder x) \<and> sent x1 = sent x
    \<and> captured x1 = (if rq_capture r then p else captured x)
    \<and> asked x1 = asked x @ [limit_request p (rq_path r)]
    \<and> protected_chain h r x = recoverPanic (route h) (r\<lparr>rq_principal := Some p\<rparr>) x1)"
proof -
  obtain q where q: "authenticated h (hget ''X-API-Key'' (rq_header r)) (rq_path r) = Some q"
    and adm: "admission h q (rq_path (r\<lparr>rq_principal := Some q\<rparr>)) = Pass p"
    using assms by (auto simp: gate_def authenticated_def split: option.splits sum.splits auth_error.splits)
  let ?r = "r\<lparr>rq_principal := Some q\<rparr>" and ?x = "if rq_capture r then x\<lparr>captured := q\<rparr> else x"
  have "authenticate h n r x = n ?r ?x" for n
    using q by (auto simp: authenticate_def authenticated_def split: option.splits sum.splits)
  then have eq: "protected_chain h r x = recoverPanic (\<lambda>r x. rateLimit h (route h) ?r ?x) r x"
    by (simp add: protected_chain_def recoverPanic_def)
  obtain f x1 where "q = p" and 1: "gate_update f" "rateLimit h (route h) ?r ?x = route h ?r x1"
    "recorder x1 = recorder_header f (recorder ?x)" "sent x1 = sent ?x" "captured x1 = captured ?x"
    "asked x1 = asked ?x @ [limit_request q (rq_path ?r)]"
    using rateLimit_pass [OF adm, of "route h" ?x] by auto
  moreover have "protected_chain h r x = recoverPanic (route h) ?r x1"
    unfolding eq recoverPanic_def 1(2) ..
  ultimately show ?thesis using q by (intro conjI exI [of _ f] exI [of _ x1]) auto
qed

lemma early_response_step:
  "captured (snd (early_response e px)) = captured (snd px)" "sent (snd (early_response e px)) = sent (snd px)"
  "asked (snd (early_response e px)) = asked (snd px)"
  by (auto simp: early_response_def Let_def split: prod.splits)

lemma early_response_fields:
  "captured (snd (fold early_response es px)) = captured (snd px)
   \<and> sent (snd (fold early_response es px)) = sent (snd px) \<and> asked (snd (fold early_response es px)) = asked (snd px)"
  by (induction es arbitrary: px) (simp_all add: early_response_step)

lemma deliver_fields:
  "captured (snd (deliver service out rp x)) = captured x \<and> sent (snd (deliver service out rp x)) = sent x
   \<and> asked (snd (deliver service out rp x)) = asked x"
proof -
  obtain p0 x0 where e: "fold early_response (rp_early rp) (False, x) = (p0, x0)" by fastforce
  then have "captured x0 = captured x" "sent x0 = sent x" "asked x0 = asked x"
    using early_response_fields [of "rp_early rp" "(False, x)"] by simp_all
  then show ?thesis
    by (simp add: deliver_def e ErrorHandler_def xch Let_def split: prod.splits)
qed

lemma proxy_fields:
  "captured (snd (proxy h service target r x)) = captured x \<and> asked (snd (proxy h service target r x)) = asked x
   \<and> (sent (snd (proxy h service target r x)) = sent x
      \<or> sent (snd (proxy h service target r x)) = sent x @ [(service, forward_headers r (Director target r))])"
  using deliver_fields by (simp add: proxy_def Let_def ErrorHandler_def xch split: upstream_answer.splits)

section \<open>The assembled chain\<close>

definition request_id :: "ambient \<Rightarrow> http_request \<Rightarrow> gostring" where
  "request_id am r =
     (let id0 = TrimSpace (hget ''X-Request-ID'' (rq_header r)) in if id0 = [] then newRequestID am else id0)"

definition inner_request :: "ambient \<Rightarrow> http_request \<Rightarrow> http_request" where
  "inner_request am r = r\<lparr>rq_id := Some (request_id am r), rq_capture := True\<rparr>"

definition inner_exchange :: "ambient \<Rightarrow> http_request \<Rightarrow> response \<Rightarrow> exchange" where
  "inner_exchange am r w =
     \<lparr>recorder = new_recorder (response_header (hset ''X-Request-ID'' (request_id am r)) w),
      captured = no_principal, asked = [], sent = []\<rparr>"

lemma api_eq:
  "api h cfg am r w g =
     (let x = snd (protected_chain h (inner_request am r) (inner_exchange am r w))
      in (x, g\<lparr>sh_metrics := finish (status (recorder x)) (am_duration am) (Begin (sh_metrics g)),
               sh_usage := enqueueUsage cfg am (inner_request am r) (captured x) (recorder x) (sh_usage g)\<rparr>))"
  by (simp add: api_def requestID_def instrument_def inner_request_def inner_exchange_def request_id_def Let_def)

lemma inner_request_fields [xch]:
  "rq_header (inner_request am r) = rq_header r" "rq_path (inner_request am r) = rq_path r"
  "rq_method (inner_request am r) = rq_method r" "rq_capture (inner_request am r)"
  "rq_id (inner_request am r) = Some (request_id am r)" "rq_host (inner_request am r) = rq_host r"
  by (simp_all add: inner_request_def)

lemma inner_exchange_fields [xch]:
  "sent (inner_exchange am r w) = []" "asked (inner_exchange am r w) = []"
  "captured (inner_exchange am r w) = no_principal"
  "recorder (inner_exchange am r w) = new_recorder (response_header (hset ''X-Request-ID'' (request_id am r)) w)"
  by (simp_all add: inner_exchange_def)

lemma gate_codes: "gate h key path = Refuse code msg \<Longrightarrow> code \<in> {401, 429, 503}"
  by (auto simp: gate_def admission_def split: option.splits sum.splits auth_error.splits if_splits)

lemma recordJSON_status:
  assumes "\<not> wroteHeader r"
  shows "status (recordJSON code payload r) = code \<and> wroteHeader (recordJSON code payload r)"
proof -
  have w: "wroteHeader (snd (recorder_WriteHeader code (recorder_header f r)))
      \<and> status (snd (recorder_WriteHeader code (recorder_header f r))) = code" for f
    using assms by (simp add: recorder_WriteHeader_def recorder_header_def split: prod.splits)
  have "status (snd (recorder_Write p q)) = status q \<and> wroteHeader (snd (recorder_Write p q))" if "wroteHeader q" for p q
    using that by (simp add: recorder_Write_def split: prod.splits)
  then show ?thesis using w by (simp add: writeJSON_def)
qed

lemma declared_length_cong: "hget ''Content-Length'' h = hget ''Content-Length'' h' \<Longrightarrow> declared_length h = declared_length h'"
  by (simp add: declared_length_def)

lemma declared_length_fresh: "declared_length (hset ''X-Request-ID'' v []) = None"
  using canonical_other_keys(4) by (simp add: declared_length_hset) (simp add: declared_length_def hget_def hvalues_def)

lemma recoverPanic_fields:
  "captured (snd (recoverPanic n r x)) = captured (snd (n r x))" "asked (snd (recoverPanic n r x)) = asked (snd (n r x))"
  "sent (snd (recoverPanic n r x)) = sent (snd (n r x))"
  by (auto simp: recoverPanic_def xch split: prod.splits)

lemma route_fields:
  "captured (snd (recoverPanic (route h) r x)) = captured x \<and> asked (snd (recoverPanic (route h) r x)) = asked x
   \<and> (sent (snd (recoverPanic (route h) r x)) = sent x
      \<or> (routeKey (rq_path r) = ''/api/users'' \<and> sent (snd (recoverPanic (route h) r x))
            = sent x @ [(''user-service'', forward_headers r (Director (h_user h) r))])
      \<or> (routeKey (rq_path r) = ''/api/orders'' \<and> sent (snd (recoverPanic (route h) r x))
            = sent x @ [(''order-service'', forward_headers r (Director (h_order h) r))]))"
proof -
  have "captured (snd (route h r x)) = captured x \<and> asked (snd (route h r x)) = asked x
   \<and> (sent (snd (route h r x)) = sent x
      \<or> (routeKey (rq_path r) = ''/api/users'' \<and> sent (snd (route h r x))
            = sent x @ [(''user-service'', forward_headers r (Director (h_user h) r))])
      \<or> (routeKey (rq_path r) = ''/api/orders'' \<and> sent (snd (route h r x))
            = sent x @ [(''order-service'', forward_headers r (Director (h_order h) r))]))"
    using proxy_fields [of h "''user-service''" "h_user h" r x] proxy_fields [of h "''order-service''" "h_order h" r x]
    by (auto simp: route_def routeKey_def xch)
  then show ?thesis by (simp add: recoverPanic_fields)
qed

lemma answer_recorder_ok:
  assumes "recorder_ok b N (recorder x)" and "200 \<le> code" and "code \<le> N"
  shows "recorder_ok b N (recorder (snd (answer code payload x))) \<and> wroteHeader (recorder (snd (answer code payload x)))"
  using recorder_ok_writeJSON [OF assms] by (simp add: xch)

lemma copy_body_recorder_ok:
  "recorder_ok is_head N r \<Longrightarrow> wroteHeader r \<Longrightarrow>
     recorder_ok is_head N (snd (copy_body bs e r)) \<and> wroteHeader (snd (copy_body bs e r)) \<and> status (snd (copy_body bs e r)) = status r"
proof (induction bs e r rule: copy_body.induct)
  case (2 b bs e r)
  obtain n r1 where r1: "recorder_Write b r = (n, r1)" by fastforce
  have "recorder_ok is_head N r1 \<and> wroteHeader r1 \<and> status r1 = status r" using recorder_ok_Write [OF 2(2), of b] 2(3) r1 by simp
  then show ?case using "2.IH" [OF r1 [symmetric] refl] r1 by auto
qed simp

lemma deliver_recorder_ok:
  assumes "recorder_ok b N (recorder x)" and "rp_early rp = []" and "200 \<le> rp_status rp" and "rp_status rp \<le> N"
  shows "recorder_ok b N (recorder (snd (deliver service out rp x))) \<and> wroteHeader (recorder (snd (deliver service out rp x)))"
proof -
  define r1 where "r1 = recorder_header (hcopy (hset ''X-Upstream-Service'' service (removeHopByHopHeaders (rp_header rp)))) (recorder x)"
  have "recorder_ok b N r1" unfolding r1_def using assms(1) by (rule recorder_ok_header)
  note wh = recorder_ok_WriteHeader [OF this assms(3,4)]
  obtain p2 r2 where e2: "recorder_WriteHeader (rp_status rp) r1 = (p2, r2)" by fastforce
  with wh have r2: "recorder_WriteHeader (rp_status rp) r1 = (False, r2)" "recorder_ok b N r2" "wroteHeader r2" by simp_all
  obtain p3 r3 where r3: "copy_body (rp_body rp) (rp_end rp) r2 = (p3, r3)" by fastforce
  have "deliver service out rp x = (p3, x\<lparr>recorder := r3\<rparr>)"
    using assms(2,3) r2(1) r3 by (simp add: deliver_def r1_def [symmetric] Let_def)
  then show ?thesis using copy_body_recorder_ok [OF r2(2,3), of "rp_body rp" "rp_end rp"] r3 by simp
qed

lemma route_recorder_ok:
  assumes "\<forall>service target out rp. h_upstream h service target out = Answered rp \<longrightarrow>
      rp_early rp = [] \<and> 200 \<le> rp_status rp \<and> rp_status rp \<le> N"
    and "recorder_ok b N (recorder x)"
  shows "recorder_ok b N (recorder (snd (route h r x))) \<and> wroteHeader (recorder (snd (route h r x)))"
proof -
  have N: "503 \<le> N" using assms(2) by (simp add: recorder_ok_def)
  have "recorder_ok b N (recorder (snd (proxy h service target r x))) \<and> wroteHeader (recorder (snd (proxy h service target r x)))"
    for service target
    using assms(1) answer_recorder_ok [of b N x 502] answer_recorder_ok [of b N "x\<lparr>sent := s\<rparr>" 502 for s]
      deliver_recorder_ok [of b N "x\<lparr>sent := s\<rparr>" for s] assms(2) N
    by (auto simp: proxy_def Let_def ErrorHandler_def split: upstream_answer.splits)
  then show ?thesis using answer_recorder_ok [of b N x 404] assms(2) N by (simp add: route_def)
qed

lemma recoverPanic_recorder_ok:
  assumes "recorder_ok b N (recorder (snd (n r x)))" and "wroteHeader (recorder (snd (n r x)))"
  shows "recorder_ok b N (recorder (snd (recoverPanic n r x))) \<and> wroteHeader (recorder (snd (recoverPanic n r x)))"
proof (cases "fst (n r x)")
  case True
  then have "recoverPanic n r x = answer 500 [(''error'', ''internal server error'')] (snd (n r x))"
    by (auto simp: recoverPanic_def split: prod.splits)
  moreover have "500 \<le> N" using assms(1) by (simp add: recorder_ok_def)
  ultimately show ?thesis using answer_recorder_ok [OF assms(1), of 500] by simp
next
  case False
  then show ?thesis using assms recoverPanic_returns by simp
qed

text \<open>Every path through the chain keeps the recorder truthful, where the upstream statuses are final and at most \<open>N\<close>.\<close>

lemma api_recorder_ok:
  assumes "\<forall>service target out rp. h_upstream h service target out = Answered rp \<longrightarrow>
      rp_early rp = [] \<and> 200 \<le> rp_status rp \<and> rp_status rp \<le> N"
    and "503 \<le> N" and "N \<le> 999"
    and "x = fst (api h cfg am r (new_response is_head) g)"
  shows "recorder_ok is_head N (recorder x) \<and> wroteHeader (recorder x)"
proof -
  define x0 where "x0 = inner_exchange am r (new_response is_head)"
  have ok0: "recorder_ok is_head N (recorder x0)"
    using assms(2,3) by (simp add: x0_def xch recorder_ok_def new_recorder_def new_response_def http)
  have x: "x = snd (protected_chain h (inner_request am r) x0)" by (simp add: assms(4) api_eq Let_def x0_def)
  show "recorder_ok is_head N (recorder x) \<and> wroteHeader (recorder x)"
  proof (cases "gate h (hget ''X-API-Key'' (rq_header r)) (rq_path r)")
    case (Refuse code msg)
    then obtain f where "recorder x = recordJSON code [(''error'', msg)] (recorder_header f (recorder x0))"
      using chain_refuse [of h "inner_request am r" code msg x0] by (auto simp: x xch)
    moreover have "200 \<le> code" "code \<le> N" using gate_codes [OF Refuse] assms(2) by auto
    ultimately show ?thesis using recorder_ok_writeJSON [OF recorder_ok_header [OF ok0]] by simp
  next
    case (Pass p)
    let ?r = "(inner_request am r)\<lparr>rq_principal := Some p\<rparr>"
    obtain f x1 where "recorder x1 = recorder_header f (recorder x0)"
      and eq: "x = snd (recoverPanic (route h) ?r x1)"
      using chain_pass [of h "inner_request am r" p x0] Pass by (auto simp: x xch)
    then have "recorder_ok is_head N (recorder x1)" using recorder_ok_header [OF ok0] by simp
    then have "recorder_ok is_head N (recorder (snd (route h ?r x1))) \<and> wroteHeader (recorder (snd (route h ?r x1)))"
      by (rule route_recorder_ok [OF assms(1)])
    then show ?thesis unfolding eq by (intro recoverPanic_recorder_ok) simp_all
  qed
qed

text \<open>The principal that ends up in the usage capture.\<close>

lemma chain_captured:
  "captured (snd (protected_chain h (inner_request am r) (inner_exchange am r w))) =
     (case authenticated h (hget ''X-API-Key'' (rq_header r)) (rq_path r) of None \<Rightarrow> no_principal | Some p \<Rightarrow> p)"
proof (cases "gate h (hget ''X-API-Key'' (rq_header r)) (rq_path r)")
  case (Refuse code msg)
  then show ?thesis
    using chain_refuse [of h "inner_request am r" code msg "inner_exchange am r w"] by (auto simp: xch split: option.splits)
next
  case (Pass p)
  then obtain x1 where "captured x1 = p" and "authenticated h (hget ''X-API-Key'' (rq_header r)) (rq_path r) = Some p"
    and "protected_chain h (inner_request am r) (inner_exchange am r w)
      = recoverPanic (route h) ((inner_request am r)\<lparr>rq_principal := Some p\<rparr>) x1"
    using chain_pass [of h "inner_request am r" p "inner_exchange am r w"] by (auto simp: xch)
  then show ?thesis using route_fields [of h "(inner_request am r)\<lparr>rq_principal := Some p\<rparr>" x1] by simp
qed

lemma Enqueue_valid:
  assumes "valid_event e" and "\<not> closed pl" and "int (length (queue pl)) < QueueCapacity cfg"
  shows "queue (snd (Enqueue cfg e pl)) = queue pl @ [e]"
  using assms by (simp add: Enqueue_def Enqueue_admit_def emit_def)

lemma routeKey_slash: "HasPrefix (routeKey path) ''/''"
  by (simp add: routeKey_def HasPrefix_def)

lemma usage_of_api:
  assumes "sh_usage g = Some pl" and "am_entropy am = Inr v"
    and "authenticated h (hget ''X-API-Key'' (rq_header r)) (rq_path r) = Some p"
    and "KeyID p \<noteq> []" and "ClientID p \<noteq> []"
  shows "\<exists>eid. NewEventID (Inr v) = Inr eid \<and> sh_usage (snd (api h cfg am r w g)) =
    Some (snd (Enqueue cfg (usage_event eid (inner_request am r) p (recorder (fst (api h cfg am r w g)))
      (am_started am) (am_duration am)) pl))"
  using assms by (simp add: api_eq Let_def enqueueUsage_def chain_captured NewEventID_def)

text \<open>Removing headers keeps the others.\<close>

lemma hget_fold_hdel:
  "\<forall>t\<in>set ts. canonical t \<noteq> canonical k \<Longrightarrow> hget k (fold hdel ts h) = hget k h"
  by (induction ts arbitrary: h) (auto simp: hget_hdel)

lemma hget_removeHopByHop:
  assumes "\<forall>t\<in>set (connection_tokens h). canonical t \<noteq> canonical k" and "\<forall>t\<in>set hopHeaders. canonical t \<noteq> canonical k"
  shows "hget k (removeHopByHopHeaders h) = hget k h"
  unfolding removeHopByHopHeaders_def using assms by (subst hget_fold_hdel) (auto simp: hget_fold_hdel)

lemma hvalues_hset_other: "k \<noteq> canonical k' \<Longrightarrow> hvalues (hset k' v h) k = hvalues h k"
  by (simp add: hset_def hvalues_update)

lemma forward_keys:
  "\<forall>t\<in>set hopHeaders. canonical t \<noteq> canonical ''X-Gateway-Request-ID''"
  "canonical ''X-Gateway-Request-ID'' \<notin> {canonical ''Te'', canonical ''Connection'', canonical ''Upgrade'',
     canonical ''X-Forwarded-For'', canonical ''User-Agent'', canonical ''X-Forwarded-Host''}"
  "''Connection'' \<noteq> canonical ''X-Gateway-Request-ID''" "''Connection'' \<noteq> canonical ''X-Forwarded-Host''"
  by code_simp+

lemma forward_headers_keeps:
  assumes "canonical k \<notin> {canonical ''Te'', canonical ''Connection'', canonical ''Upgrade'',
     canonical ''X-Forwarded-For'', canonical ''User-Agent''}"
  shows "hget k (rq_header (forward_headers r out)) = hget k (removeHopByHopHeaders (rq_header out))"
  using assms by (simp add: forward_headers_def Let_def hget_hset split: option.splits)

lemma Director_tokens: "connection_tokens (rq_header (Director target r)) = connection_tokens (rq_header r)"
  using forward_keys(3,4)
  by (simp add: connection_tokens_def Director_def original_director_def hvalues_hset_other)

lemma forwarded_request_id:
  assumes "\<forall>t\<in>set (connection_tokens (rq_header r)). canonical t \<noteq> canonical ''X-Gateway-Request-ID''"
  shows "hget ''X-Gateway-Request-ID'' (rq_header (forward_headers r' (Director target r))) = requestIDFromContext r"
proof -
  have "hget ''X-Gateway-Request-ID'' (removeHopByHopHeaders (rq_header (Director target r)))
      = hget ''X-Gateway-Request-ID'' (rq_header (Director target r))"
    using assms forward_keys(1) by (intro hget_removeHopByHop) (simp_all add: Director_tokens)
  moreover have "hget ''X-Gateway-Request-ID'' (rq_header (Director target r)) = requestIDFromContext r"
    by (simp add: Director_def hget_hset)
  ultimately show ?thesis using forward_headers_keeps forward_keys(2) by simp
qed

section \<open>Properties\<close>

text \<open>
  C3. No request reaches an upstream service unless the key was authenticated for its route and the
  limiter admitted it (or failed while configured to fail open); then exactly one request is sent, to
  the service of the route the quota was checked for, and the limiter was asked exactly once.
\<close>

theorem upstream_only_after_admission:
  "sent (fst (api h cfg am r w g)) = []
   \<or> (\<exists>p service out. gate h (hget ''X-API-Key'' (rq_header r)) (rq_path r) = Pass p
        \<and> asked (fst (api h cfg am r w g)) = [limit_request p (rq_path r)]
        \<and> sent (fst (api h cfg am r w g)) = [(service, out)]
        \<and> (routeKey (rq_path r) = ''/api/users'' \<and> service = ''user-service''
           \<or> routeKey (rq_path r) = ''/api/orders'' \<and> service = ''order-service''))"
proof (cases "gate h (hget ''X-API-Key'' (rq_header r)) (rq_path r)")
  case (Refuse code msg)
  then show ?thesis
    using chain_refuse [of h "inner_request am r" code msg "inner_exchange am r w"] by (auto simp: api_eq xch Let_def)
next
  case (Pass p)
  then obtain x1 where x1: "sent x1 = []" "asked x1 = [limit_request p (rq_path r)]"
    and eq: "protected_chain h (inner_request am r) (inner_exchange am r w)
      = recoverPanic (route h) ((inner_request am r)\<lparr>rq_principal := Some p\<rparr>) x1"
    using chain_pass [of h "inner_request am r" p "inner_exchange am r w"] by (auto simp: xch)
  show ?thesis
    using route_fields [of h "(inner_request am r)\<lparr>rq_principal := Some p\<rparr>" x1] x1 Pass
    by (auto simp: api_eq eq xch Let_def)
qed

text \<open>
  C4. The chain implements the abstract gate: a refused request is answered with the gate's status and a
  JSON error of that status, under the request's identifier, nothing is sent upstream, and metrics and
  usage see the same status.
\<close>

theorem gate_refusal_answered:
  assumes "gate h (hget ''X-API-Key'' (rq_header r)) (rq_path r) = Refuse code msg"
    and "x = fst (api h cfg am r (new_response is_head) g)"
  shows "rw_status (inner (recorder x)) = Some code \<and> status (recorder x) = code
    \<and> rw_body (inner (recorder x)) = (if is_head then [] else json_object [(''error'', msg)])
    \<and> hget ''Content-Type'' (rw_sent (inner (recorder x))) = ''application/json''
    \<and> hget ''X-Request-ID'' (rw_sent (inner (recorder x))) = request_id am r
    \<and> sent x = []"
proof -
  let ?w = "response_header (hset ''X-Request-ID'' (request_id am r)) (new_response is_head)"
  obtain f where f: "gate_update f" and rec: "recorder x
      = recordJSON code [(''error'', msg)] (recorder_header f (new_recorder ?w))" and "sent x = []"
    using chain_refuse [of h "inner_request am r" code msg "inner_exchange am r (new_response is_head)"] assms
    by (auto simp: api_eq xch Let_def)
  define q where "q = recorder_header f (new_recorder ?w)"
  note rec = rec [folded q_def]
  have code: "200 \<le> code" "code \<le> 999" "bodyAllowedForStatus code"
    using gate_codes [OF assms(1)] by (auto simp: bodyAllowedForStatus_def)
  have u: "untouched_recorder q" "\<not> wroteHeader q"
    by (simp_all add: q_def untouched_recorder_def recorder_header_def new_recorder_def new_response_def http)
  have hdr: "rw_header (inner q) = f (hset ''X-Request-ID'' (request_id am r) [])"
    by (simp add: q_def recorder_header_def new_recorder_def new_response_def http)
  have "hget ''Content-Length'' (rw_header (inner q)) = hget ''Content-Length'' (hset ''X-Request-ID'' (request_id am r) [])"
    unfolding hdr by (rule gate_update_hget [OF f canonical_other_keys(1)])
  then have len: "declared_length (rw_header (inner q)) = None"
    using declared_length_cong declared_length_fresh by metis
  note ans = recorder.json_answer [OF u(1) code len, of "[(''error'', msg)]", folded rec]
  have "hget ''X-Request-ID'' (rw_header (inner q)) = request_id am r"
    unfolding hdr gate_update_hget [OF f canonical_other_keys(2)] by (simp add: hget_hset)
  moreover have "rw_head (inner q) = is_head" "rw_body (inner q) = []"
    by (simp_all add: q_def recorder_header_def new_recorder_def new_response_def http)
  ultimately show ?thesis
    using ans recordJSON_status [OF u(2), of code "[(''error'', msg)]", folded rec] canonical_other_keys(3) \<open>sent x = []\<close>
    by (simp add: hget_hset)
qed

text \<open>A handler for the witnesses: no authenticator, so every request is refused.\<close>

definition sample_request :: http_request where
  "sample_request = \<lparr>rq_method = ''GET'', rq_path = ''/api/users/7'', rq_query = [], rq_host = ''gw'',
     rq_header = [(''X-Request-Id'', [''abc'']), (''X-Api-Key'', [''k''])], rq_remote = Some ''10.0.0.1'', rq_id = None,
     rq_principal = None, rq_capture = False\<rparr>"

definition sample_target :: target_url where
  "sample_target = \<lparr>tg_scheme = ''http'', tg_host = ''users:8081'', tg_path = [], tg_query = []\<rparr>"

definition sample_principal :: Principal where
  "sample_principal = \<lparr>KeyID = ''k1'', ClientID = ''c1'', ClientName = ''acme'', Plan = ''dev'', RatePerSecond = 5,
     BurstCapacity = 10\<rparr>"

definition sample_config_values :: Config where
  "sample_config_values = initial_config (\<lambda>name. [])"

definition sample_reply :: reply where
  "sample_reply = \<lparr>rp_early = [], rp_status = 200, rp_header = [(''Content-Type'', [''text/plain''])],
     rp_body = [''hello''], rp_end = Complete\<rparr>"

definition sample_handler :: "reply \<Rightarrow> handler" where
  "sample_handler rp = \<lparr>h_cfg = sample_config_values,
     h_limiter = Some (\<lambda>q. Inr \<lparr>Allowed = True, Limit = 10, Remaining = 9, ResetAt = 0, RetryAfter = 0\<rparr>),
     h_auth = Some (\<lambda>key route. if key = ''k'' then Inr sample_principal else Inl ErrInvalidKey),
     h_readiness = [], h_upstream = (\<lambda>service target r. Answered rp), h_user = sample_target, h_order = sample_target\<rparr>"

definition sample_ambient :: ambient where
  "sample_ambient = \<lparr>am_now = 5, am_started = 5, am_duration = 2000000, am_entropy = Inr (replicate 16 0)\<rparr>"

definition sample_shared :: shared where
  "sample_shared = \<lparr>sh_metrics = NewRegistry, sh_usage = None\<rparr>"

lemma canonical_api_key: "canonical ''X-API-Key'' = ''X-Api-Key''"
  by code_simp

theorem gate_refusal_answered_witness:
  "rw_status (inner (recorder (fst (api (sample_handler sample_reply) sample_config sample_ambient
      (sample_request\<lparr>rq_header := []\<rparr>) (new_response False) sample_shared)))) = Some 401"
proof -
  have "gate (sample_handler sample_reply) (hget ''X-API-Key'' (rq_header (sample_request\<lparr>rq_header := []\<rparr>)))
      (rq_path (sample_request\<lparr>rq_header := []\<rparr>)) = Refuse 401 ''missing or invalid API key''"
    by (simp add: gate_def sample_handler_def hget_def hvalues_def)
  from gate_refusal_answered [OF this refl] show ?thesis by blast
qed

text \<open>
  Every request through the chain is counted exactly once, whatever happens to it: the total goes up
  by one, the gauge of requests in flight returns to its value, and the response is counted under the
  status the recorder ends with.
\<close>

theorem api_request_accounting:
  "requests (sh_metrics (snd (api h cfg am r w g))) = requests (sh_metrics g) + 1
   \<and> inFlight (sh_metrics (snd (api h cfg am r w g))) = inFlight (sh_metrics g)
   \<and> response_count (sh_metrics (snd (api h cfg am r w g))) code = response_count (sh_metrics g) code
       + (if code = status (recorder (fst (api h cfg am r w g))) then 1 else 0)"
  by (auto simp: api_eq Let_def response_count_finish) (simp_all add: Begin_def finish_def response_count_def)



text \<open>
  Usage is attributed exactly to authenticated requests: a request whose key was not authenticated
  leaves the pipeline alone; an authenticated one, admitted or rate limited, is offered to it as exactly
  one event, which carries the principal's key and client, the normalized route, the status and byte
  count of the recorder and the request's identifier.
\<close>

theorem usage_attributed:
  assumes "sh_usage g = Some pl" and "NewEventID (am_entropy am) = Inr eid"
  shows "sh_usage (snd (api h cfg am r w g)) =
    (case authenticated h (hget ''X-API-Key'' (rq_header r)) (rq_path r) of
       None \<Rightarrow> Some pl
     | Some p \<Rightarrow>
         if KeyID p = [] \<or> ClientID p = [] then Some pl
         else Some (snd (Enqueue cfg
           \<lparr>evID = eid, evRequestID = request_id am r, evAPIKeyID = KeyID p, evClientID = ClientID p,
            evRoute = routeKey (rq_path r), evMethod = rq_method r,
            evStatusCode = status (recorder (fst (api h cfg am r w g))), evDurationMicros = am_duration am sdiv 1000,
            evResponseBytes = bytes (recorder (fst (api h cfg am r w g))), evOccurredAt = am_started am\<rparr> pl)))"
  using assms
  by (simp add: api_eq Let_def enqueueUsage_def chain_captured usage_event_def requestIDFromContext_def xch
      no_principal_def split: option.splits)

theorem usage_attributed_witness:
  "\<exists>e. sh_usage (snd (api (sample_handler sample_reply) sample_config sample_ambient sample_request (new_response False)
      (sample_shared\<lparr>sh_usage := Some sample_open\<rparr>))) = Some (snd (Enqueue sample_config e sample_open))
    \<and> evClientID e = ''c1''"
proof -
  obtain eid where "NewEventID (am_entropy sample_ambient) = Inr eid"
    by (simp add: sample_ambient_def NewEventID_def)
  moreover have "authenticated (sample_handler sample_reply) (hget ''X-API-Key'' (rq_header sample_request)) (rq_path sample_request)
      = Some sample_principal"
    using canonical_api_key by (simp add: authenticated_def sample_handler_def sample_request_def hget_def hvalues_def)
  ultimately show ?thesis
    using usage_attributed [of "sample_shared\<lparr>sh_usage := Some sample_open\<rparr>" sample_open sample_ambient eid
      "sample_handler sample_reply" sample_config sample_request "new_response False"]
    by (simp add: sample_principal_def) (metis Event.select_convs(4))
qed

text \<open>
  C14. End to end, a served request becomes one accepted usage event: with well-behaved upstream services
  and room in an open pipeline, the queue grows by exactly one event, which passes validation and states
  the client, the route, the status that was sent and the length of the body that was sent.
\<close>

theorem served_request_enqueues_event:
  assumes up: "\<forall>service target out rp. h_upstream h service target out = Answered rp \<longrightarrow>
      rp_early rp = [] \<and> 200 \<le> rp_status rp \<and> rp_status rp \<le> 599"
    and auth: "authenticated h (hget ''X-API-Key'' (rq_header r)) (rq_path r) = Some p"
    and ids: "TrimSpace (KeyID p) \<noteq> []" "TrimSpace (ClientID p) \<noteq> []" "TrimSpace (rq_method r) \<noteq> []"
    and times: "0 \<le> am_duration am" "am_started am \<noteq> zero_time"
    and entropy: "am_entropy am = Inr v" "length v = 16"
    and pl: "sh_usage g = Some pl" "\<not> closed pl" "int (length (queue pl)) < QueueCapacity cfg"
    and x: "api h cfg am r (new_response False) g = (x, g')"
  shows "\<exists>pl' e. sh_usage g' = Some pl' \<and> queue pl' = queue pl @ [e] \<and> valid_event e
    \<and> evClientID e = ClientID p \<and> evAPIKeyID e = KeyID p \<and> evRoute e = routeKey (rq_path r)
    \<and> rw_status (inner (recorder x)) = Some (evStatusCode e)
    \<and> evResponseBytes e = int (length (rw_body (inner (recorder x)))) \<and> evRequestID e = request_id am r"
proof -
  have ne: "KeyID p \<noteq> []" "ClientID p \<noteq> []" using ids(1,2) by auto
  have ok: "recorder_ok False 599 (recorder x)" "wroteHeader (recorder x)"
    using api_recorder_ok [OF up, of x cfg am r False g] x by simp_all
  obtain eid where eid: "NewEventID (Inr v) = Inr eid"
    and usage: "sh_usage g' = Some (snd (Enqueue cfg (usage_event eid (inner_request am r) p (recorder x)
      (am_started am) (am_duration am)) pl))"
    using usage_of_api [OF pl(1) entropy(1) auth ne, of cfg "new_response False"] x by auto
  let ?e = "usage_event eid (inner_request am r) p (recorder x) (am_started am) (am_duration am)"
  have "valid_event ?e"
    unfolding valid_event_iff
    using ids times ok NewEventID_not_blank [OF entropy(2) eid] routeKey_slash [of "rq_path r"]
    by (simp add: usage_event_def xch recorder_ok_def sdiv_nonneg)
  moreover from this have "queue (snd (Enqueue cfg ?e pl)) = queue pl @ [?e]" using pl(2,3) by (rule Enqueue_valid)
  ultimately show ?thesis
    using usage ok
    by (intro exI [of _ "snd (Enqueue cfg ?e pl)"] exI [of _ ?e])
      (simp add: usage_event_def xch recorder_ok_def requestIDFromContext_def)
qed

theorem served_request_enqueues_event_witness:
  "\<exists>pl' e. sh_usage (snd (api (sample_handler sample_reply) sample_config sample_ambient sample_request (new_response False)
       (sample_shared\<lparr>sh_usage := Some sample_open\<rparr>))) = Some pl' \<and> queue pl' = [e] \<and> valid_event e"
proof -
  let ?g = "sample_shared\<lparr>sh_usage := Some sample_open\<rparr>"
  obtain x g' where x: "api (sample_handler sample_reply) sample_config sample_ambient sample_request (new_response False) ?g
      = (x, g')" by fastforce
  have "\<exists>pl' e. sh_usage g' = Some pl' \<and> queue pl' = queue sample_open @ [e] \<and> valid_event e
    \<and> evClientID e = ClientID sample_principal \<and> evAPIKeyID e = KeyID sample_principal
    \<and> evRoute e = routeKey (rq_path sample_request) \<and> rw_status (inner (recorder x)) = Some (evStatusCode e)
    \<and> evResponseBytes e = int (length (rw_body (inner (recorder x))))
    \<and> evRequestID e = request_id sample_ambient sample_request"
  proof (rule served_request_enqueues_event [OF _ _ _ _ _ _ _ _ _ _ _ _ x])
    show "authenticated (sample_handler sample_reply) (hget ''X-API-Key'' (rq_header sample_request)) (rq_path sample_request)
        = Some sample_principal"
      using canonical_api_key by (simp add: authenticated_def sample_handler_def sample_request_def hget_def hvalues_def)
    show "length (replicate 16 (0 :: 8 word)) = 16" by simp
  qed (simp_all add: sample_handler_def sample_reply_def sample_principal_def sample_request_def sample_ambient_def
      sample_open_def sample_config_def empty_pipeline_def emit_def zero_time_def TrimSpace_graphic graphic_def)
  then show ?thesis using x by (auto simp: sample_open_def empty_pipeline_def emit_def)
qed



text \<open>
  The \<open>Retry-After\<close> header of a denial is at least one second and covers the limiter's delay,
  rounded up to whole seconds and by less than a second more than needed.
\<close>

theorem retry_after_covers_delay:
  assumes "0 \<le> d" and "d < 2 ^ 63 - time_Second"
  shows "1 \<le> retry_seconds d \<and> d \<le> retry_seconds d * time_Second
    \<and> (1 < retry_seconds d \<longrightarrow> (retry_seconds d - 1) * time_Second < d)"
proof -
  have "wrap64 (d + time_Second) = d + time_Second" "wrap64 (d + time_Second - 1) = d + time_Second - 1"
    using assms by (simp_all add: wrap64_id in_int64_def)
  moreover define s where "s = (d + time_Second - 1) div time_Second"
  ultimately have r: "retry_seconds d = (if s < 1 then 1 else s)"
    using assms(1) by (simp add: retry_seconds_def sdiv_nonneg)
  define m where "m = (d + time_Second - 1) mod time_Second"
  have "s * time_Second + m = d + time_Second - 1" by (simp add: s_def m_def)
  moreover have "0 \<le> m" "m < time_Second" by (simp_all add: m_def)
  ultimately show ?thesis using assms(1) by (auto simp: r algebra_simps)
qed

theorem retry_after_covers_delay_witness: "retry_seconds 1500000000 = 2"
  using retry_after_covers_delay [of 1500000000] by auto

text \<open>
  Readiness: the endpoint answers 200 exactly when dependencies are configured and every one of them
  answers its ping, and 503 in every other case, naming the first dependency that failed.
\<close>

theorem ready_iff_all_healthy:
  "rw_status (ready h (new_response is_head)) =
     Some (if h_readiness h \<noteq> [] \<and> (\<forall>c\<in>set (h_readiness h). \<exists>u. hc_ping c = Inr u) then 200 else 503)
   \<and> (\<forall>pre c post err. h_readiness h = pre @ c # post \<and> (\<forall>d\<in>set pre. \<exists>u. hc_ping d = Inr u) \<and> hc_ping c = Inl err \<longrightarrow>
        rw_body (ready h (new_response False)) =
          json_object [(''error'', hc_name c @ '' is unavailable''), (''status'', ''not ready'')])"
proof -
  have none: "first_failing cs = None \<longleftrightarrow> (\<forall>c\<in>set cs. \<exists>u. hc_ping c = Inr u)" for cs
    by (induction cs) (auto split: sum.splits)
  have some: "first_failing (pre @ c # post) = Some (hc_name c)"
    if "\<forall>d\<in>set pre. \<exists>u. hc_ping d = Inr u" "hc_ping c = Inl err" for pre c post err
    using that by (induction pre) (auto split: sum.splits)
  have fresh: "rw_status (new_response b) = None" "declared_length (rw_header (new_response b)) = None"
    "rw_head (new_response b) = b" "rw_body (new_response b) = []" for b
    by (simp_all add: new_response_def declared_length_def hget_def hvalues_def)
  have ans: "rw_status (respondJSON code payload (new_response b)) = Some code"
    "rw_body (respondJSON code payload (new_response b)) = (if b then [] else json_object payload)"
    if "code = 200 \<or> code = 503" for code payload b
    using server.json_answer [of "new_response b" code payload] that fresh by (auto simp: bodyAllowedForStatus_def)
  have "rw_status (ready h (new_response is_head)) =
     Some (if h_readiness h \<noteq> [] \<and> (\<forall>c\<in>set (h_readiness h). \<exists>u. hc_ping c = Inr u) then 200 else 503)"
    unfolding none [symmetric] by (simp add: ready_def ans split: option.split)
  moreover have "rw_body (ready h (new_response False)) =
      json_object [(''error'', hc_name c @ '' is unavailable''), (''status'', ''not ready'')]"
    if "h_readiness h = pre @ c # post" "\<forall>d\<in>set pre. \<exists>u. hc_ping d = Inr u" "hc_ping c = Inl err" for pre c post err
    using some [OF that(2,3), of post] that(1) by (simp add: ready_def ans)
  ultimately show ?thesis by blast
qed

theorem ready_iff_all_healthy_witness:
  "rw_status (ready ((sample_handler sample_reply)\<lparr>h_readiness := [\<lparr>hc_name = ''redis'', hc_ping = Inr ()\<rparr>]\<rparr>)
      (new_response False)) = Some 200
   \<and> rw_body (ready ((sample_handler sample_reply)\<lparr>h_readiness :=
        [\<lparr>hc_name = ''redis'', hc_ping = Inr ()\<rparr>, \<lparr>hc_name = ''postgres'', hc_ping = Inl ''closed''\<rparr>]\<rparr>)
      (new_response False))
     = json_object [(''error'', ''postgres is unavailable''), (''status'', ''not ready'')]"
proof -
  let ?up = "\<lparr>hc_name = ''redis'', hc_ping = Inr ()\<rparr>"
  let ?down = "\<lparr>hc_name = ''postgres'', hc_ping = Inl ''closed''\<rparr>"
  let ?h = "\<lambda>cs. (sample_handler sample_reply)\<lparr>h_readiness := cs\<rparr>"
  have "rw_status (ready (?h [?up]) (new_response False)) = Some 200"
    using conjunct1 [OF ready_iff_all_healthy [of "?h [?up]" False]] by simp
  moreover have "rw_body (ready (?h [?up, ?down]) (new_response False)) =
      json_object [(''error'', hc_name ?down @ '' is unavailable''), (''status'', ''not ready'')]"
    using conjunct2 [OF ready_iff_all_healthy [of "?h [?up, ?down]" False],
      THEN spec [of _ "[?up]"], THEN spec [of _ ?down], THEN spec [of _ "[]"], THEN spec [of _ "''closed''"]]
    by simp
  ultimately show ?thesis by simp
qed

definition fresh_exchange :: exchange where
  "fresh_exchange = \<lparr>recorder = new_recorder (new_response False), captured = no_principal, asked = [], sent = []\<rparr>"


text \<open>
  What the recovery does with a body that breaks off: the proxy aborts the exchange with a panic,
  which \<open>recoverPanic\<close> turns into a JSON error appended to the part of the body that was sent already,
  under the status 200 that was sent with it.
\<close>

theorem broken_body_is_extended:
  "rw_status (inner (recorder (snd (recoverPanic (\<lambda>r x. deliver ''user-service'' r (sample_reply\<lparr>rp_end := Broken\<rparr>) x)
      sample_request fresh_exchange)))) = Some 200
   \<and> rw_body (inner (recorder (snd (recoverPanic (\<lambda>r x. deliver ''user-service'' r (sample_reply\<lparr>rp_end := Broken\<rparr>) x)
      sample_request fresh_exchange))))
     = ''hello'' @ json_object [(''error'', ''internal server error'')]"
  by code_simp

end
