(* ===== verification/Key_Store.thy ===== *)
theory Key_Store
  imports Auth_Service
begin

text \<open>
  \<open>internal/store/postgres.go\<close>: the key directory.  The tables of
  \<open>migrations/001_api_keys.sql\<close> are lists of rows and every statement is a function on them
  with the constraints the schema declares: a violated constraint is an error and leaves the tables
  alone.  Identifiers drawn by \<open>gen_random_uuid()\<close>, the server's clock, the text representation of
  \<open>uuid\<close> and failures outside the tables (a lost connection, a cancelled context, text the server
  cannot store) are arguments.
\<close>

section \<open>Tables\<close>

record plan_row =
  plan_id :: gostring
  plan_slug :: gostring
  plan_name :: gostring
  plan_rate :: int
  plan_burst :: int

record client_row =
  client_id :: gostring
  client_plan :: gostring
  client_name :: gostring
  client_active :: bool
  client_created :: int

record key_row =
  key_id :: gostring
  key_client :: gostring
  key_name :: gostring
  key_prefix :: gostring
  key_hash :: gostring
  key_revoked :: "int option"

record quota_row =
  quota_id :: gostring
  quota_client :: gostring
  quota_route :: gostring
  quota_rate :: int
  quota_burst :: int

record directory =
  plans :: "plan_row list"
  clients :: "client_row list"
  api_keys :: "key_row list"
  route_quotas :: "quota_row list"

datatype db_error =
    Fault string
  | OutOfRange
  | CheckViolation
  | UniqueViolation
  | ForeignKeyViolation
  | InvalidUUID
  | PlanMissing string

type_synonym 'a outcome = "db_error + 'a"

section \<open>SQL text matching\<close>

text \<open>
  \<open>LIKE\<close>: \<open>%\<close> is any sequence, \<open>_\<close> any one character (with the continuation bytes of its UTF-8
  encoding) and a backslash quotes the next one.
\<close>

definition continuation :: "char \<Rightarrow> bool" where
  "continuation c \<longleftrightarrow> 128 \<le> (of_char c :: nat) \<and> (of_char c :: nat) < 192"

fun like :: "gostring \<Rightarrow> gostring \<Rightarrow> bool" where
  "like [] s = (s = [])"
| "like (p # ps) s =
     (if p = CHR ''%'' then list_ex (like ps) (suffixes s)
      else if p = CHR ''_'' then (case s of [] \<Rightarrow> False | c # cs \<Rightarrow> like ps (dropWhile continuation cs))
      else if p = CHR 0x5C then
        (case ps of [] \<Rightarrow> False | q # qs \<Rightarrow> (case s of [] \<Rightarrow> False | c # cs \<Rightarrow> c = q \<and> like qs cs))
      else (case s of [] \<Rightarrow> False | c # cs \<Rightarrow> c = p \<and> like ps cs))"

text \<open>\<open>length\<close> of a text counts its characters.\<close>

definition text_length :: "gostring \<Rightarrow> nat" where
  "text_length s = length (filter (\<lambda>c. \<not> continuation c) s)"

text \<open>The check \<open>slug ~ '^[a-z0-9][a-z0-9_-]{1,31}$'\<close>.\<close>

definition slug_ok :: "gostring \<Rightarrow> bool" where
  "slug_ok s \<longleftrightarrow> 2 \<le> length s \<and> length s \<le> 32
     \<and> hd s \<in> set ''abcdefghijklmnopqrstuvwxyz0123456789''
     \<and> list_all (\<lambda>c. c \<in> set ''abcdefghijklmnopqrstuvwxyz0123456789_-'') (tl s)"

text \<open>The range of \<open>INTEGER\<close>, checked when the argument is encoded, and the check on quotas.\<close>

definition in_int4 :: "int \<Rightarrow> bool" where
  "in_int4 n \<longleftrightarrow> - (2 ^ 31) \<le> n \<and> n < 2 ^ 31"

definition check_quota :: "int \<Rightarrow> int \<Rightarrow> db_error option" where
  "check_quota rate burst =
     (if \<not> in_int4 rate \<or> \<not> in_int4 burst then Some OutOfRange
      else if rate \<le> 0 \<or> burst \<le> 0 then Some CheckViolation
      else None)"

section \<open>Lookup\<close>

text \<open>
  The lateral subquery: of the client's quotas whose prefix matches the route, one with the longest
  prefix.  Where several have that length SQL leaves the choice open; the model takes the first.
\<close>

definition matching_quotas :: "directory \<Rightarrow> gostring \<Rightarrow> gostring \<Rightarrow> quota_row list" where
  "matching_quotas db cid route =
     filter (\<lambda>q. quota_client q = cid \<and> like (quota_route q @ ''%'') route) (route_quotas db)"

definition route_quota :: "directory \<Rightarrow> gostring \<Rightarrow> gostring \<Rightarrow> quota_row option" where
  "route_quota db cid route =
     (let qs = matching_quotas db cid route in
      find (\<lambda>q. \<forall>q'\<in>set qs. text_length (quota_route q') \<le> text_length (quota_route q)) qs)"

definition key_rows :: "directory \<Rightarrow> key_row \<Rightarrow> (key_row \<times> client_row \<times> plan_row) list" where
  "key_rows db k =
     [(k, c, pl). c \<leftarrow> clients db, client_id c = key_client k \<and> client_active c,
                  pl \<leftarrow> plans db, plan_id pl = client_plan c]"

definition joined_keys :: "directory \<Rightarrow> gostring \<Rightarrow> (key_row \<times> client_row \<times> plan_row) list" where
  "joined_keys db digest =
     concat (map (key_rows db) (filter (\<lambda>k. key_hash k = digest \<and> key_revoked k = None) (api_keys db)))"

definition principal_of :: "directory \<Rightarrow> gostring \<Rightarrow> key_row \<times> client_row \<times> plan_row \<Rightarrow> Principal" where
  "principal_of db route = (\<lambda>(k, c, pl).
     let quota = route_quota db (client_id c) route in
     \<lparr>KeyID = key_id k, ClientID = client_id c, ClientName = client_name c, Plan = plan_slug pl,
      RatePerSecond = (case quota of Some q \<Rightarrow> quota_rate q | None \<Rightarrow> plan_rate pl),
      BurstCapacity = (case quota of Some q \<Rightarrow> quota_burst q | None \<Rightarrow> plan_burst pl)\<rparr>)"

definition LookupActiveKey :: "string option \<Rightarrow> directory \<Rightarrow> gostring \<Rightarrow> gostring \<Rightarrow> auth_error + Principal" where
  "LookupActiveKey fault db digest route =
     (case fault of
        Some err \<Rightarrow> Inl (OtherError (''lookup API key: '' @ err))
      | None \<Rightarrow>
          (case joined_keys db digest of
             [] \<Rightarrow> Inl ErrInvalidKey
           | row # _ \<Rightarrow> Inr (principal_of db route row)))"

section \<open>Plans, clients, keys and quotas\<close>

text \<open>\<open>UpsertPlan\<close>: the checks are made on the proposed row, then the slug decides between update and insert.\<close>

definition UpsertPlan ::
  "string option \<Rightarrow> gostring \<Rightarrow> gostring \<Rightarrow> gostring \<Rightarrow> int \<Rightarrow> int \<Rightarrow> directory \<Rightarrow> (gostring \<times> directory) outcome"
where
  "UpsertPlan fault new_id slug name rate burst db =
     (case fault of Some err \<Rightarrow> Inl (Fault err) | None \<Rightarrow>
      case check_quota rate burst of Some err \<Rightarrow> Inl err | None \<Rightarrow>
      if \<not> slug_ok slug then Inl CheckViolation
      else case find (\<lambda>pl. plan_slug pl = slug) (plans db) of
        Some old \<Rightarrow>
          Inr (plan_id old, db\<lparr>plans := map (\<lambda>pl. if plan_slug pl = slug
            then pl\<lparr>plan_name := name, plan_rate := rate, plan_burst := burst\<rparr> else pl) (plans db)\<rparr>)
      | None \<Rightarrow>
          if list_ex (\<lambda>pl. plan_id pl = new_id) (plans db) then Inl UniqueViolation
          else Inr (new_id, db\<lparr>plans := plans db @
            [\<lparr>plan_id = new_id, plan_slug = slug, plan_name = name, plan_rate = rate, plan_burst = burst\<rparr>]\<rparr>))"

definition CreateClient ::
  "string option \<Rightarrow> gostring \<Rightarrow> int \<Rightarrow> gostring \<Rightarrow> gostring \<Rightarrow> directory \<Rightarrow> (gostring \<times> directory) outcome"
where
  "CreateClient fault new_id now name planSlug db =
     (case fault of Some err \<Rightarrow> Inl (Fault err) | None \<Rightarrow>
      case find (\<lambda>pl. plan_slug pl = planSlug) (plans db) of
        None \<Rightarrow> Inl (PlanMissing planSlug)
      | Some pl \<Rightarrow>
          if list_ex (\<lambda>c. client_id c = new_id) (clients db) then Inl UniqueViolation
          else Inr (new_id, db\<lparr>clients := clients db @
            [\<lparr>client_id = new_id, client_plan = plan_id pl, client_name = name, client_active = True,
              client_created = now\<rparr>]\<rparr>))"

text \<open>\<open>EnsureClient\<close>: the oldest client of that name on the plan, else a new one.\<close>

definition named_clients :: "directory \<Rightarrow> gostring \<Rightarrow> gostring \<Rightarrow> client_row list" where
  "named_clients db name planSlug =
     filter (\<lambda>c. client_name c = name
        \<and> list_ex (\<lambda>pl. plan_id pl = client_plan c \<and> plan_slug pl = planSlug) (plans db)) (clients db)"

definition EnsureClient ::
  "string option \<Rightarrow> string option \<Rightarrow> gostring \<Rightarrow> int \<Rightarrow> gostring \<Rightarrow> gostring \<Rightarrow> directory \<Rightarrow> (gostring \<times> directory) outcome"
where
  "EnsureClient fault fault' new_id now name planSlug db =
     (case fault of Some err \<Rightarrow> Inl (Fault err) | None \<Rightarrow>
      case find (\<lambda>c. \<forall>c'\<in>set (named_clients db name planSlug). client_created c \<le> client_created c')
             (named_clients db name planSlug) of
        Some c \<Rightarrow> Inr (client_id c, db)
      | None \<Rightarrow> CreateClient fault' new_id now name planSlug db)"

definition insert_key ::
  "gostring \<Rightarrow> gostring \<Rightarrow> gostring \<Rightarrow> gostring \<Rightarrow> gostring \<Rightarrow> directory \<Rightarrow> (gostring \<times> directory) outcome"
where
  "insert_key new_id cid name pfx digest db =
     (if list_ex (\<lambda>k. key_id k = new_id \<or> key_prefix k = pfx \<or> key_hash k = digest) (api_keys db)
      then Inl UniqueViolation
      else if \<not> list_ex (\<lambda>c. client_id c = cid) (clients db) then Inl ForeignKeyViolation
      else Inr (new_id, db\<lparr>api_keys := api_keys db @
        [\<lparr>key_id = new_id, key_client = cid, key_name = name, key_prefix = pfx, key_hash = digest,
          key_revoked = None\<rparr>]\<rparr>))"

definition CreateAPIKey ::
  "string option \<Rightarrow> (gostring \<Rightarrow> gostring option) \<Rightarrow> gostring \<Rightarrow> gostring \<Rightarrow> gostring \<Rightarrow> gostring \<Rightarrow> gostring
    \<Rightarrow> directory \<Rightarrow> (gostring \<times> directory) outcome"
where
  "CreateAPIKey fault uuid_in new_id clientID name pfx digest db =
     (case fault of Some err \<Rightarrow> Inl (Fault err) | None \<Rightarrow>
      case uuid_in clientID of None \<Rightarrow> Inl InvalidUUID | Some cid \<Rightarrow>
      if length digest \<noteq> 32 then Inl CheckViolation
      else insert_key new_id cid name pfx digest db)"

text \<open>\<open>EnsureAPIKey\<close>: a row with the same hash is reactivated, whatever the other arguments are.\<close>

definition EnsureAPIKey ::
  "string option \<Rightarrow> (gostring \<Rightarrow> gostring option) \<Rightarrow> gostring \<Rightarrow> gostring \<Rightarrow> gostring \<Rightarrow> gostring \<Rightarrow> gostring
    \<Rightarrow> directory \<Rightarrow> (gostring \<times> directory) outcome"
where
  "EnsureAPIKey fault uuid_in new_id clientID name pfx digest db =
     (case fault of Some err \<Rightarrow> Inl (Fault err) | None \<Rightarrow>
      case uuid_in clientID of None \<Rightarrow> Inl InvalidUUID | Some cid \<Rightarrow>
      if length digest \<noteq> 32 then Inl CheckViolation
      else case find (\<lambda>k. key_hash k = digest) (api_keys db) of
        Some old \<Rightarrow>
          Inr (key_id old, db\<lparr>api_keys := map (\<lambda>k. if key_hash k = digest then k\<lparr>key_revoked := None\<rparr> else k)
            (api_keys db)\<rparr>)
      | None \<Rightarrow> insert_key new_id cid name pfx digest db)"

definition SetRouteQuota ::
  "string option \<Rightarrow> (gostring \<Rightarrow> gostring option) \<Rightarrow> gostring \<Rightarrow> gostring \<Rightarrow> gostring \<Rightarrow> int \<Rightarrow> int
    \<Rightarrow> directory \<Rightarrow> directory outcome"
where
  "SetRouteQuota fault uuid_in new_id clientID route rate burst db =
     (case fault of Some err \<Rightarrow> Inl (Fault err) | None \<Rightarrow>
      case check_quota rate burst of Some err \<Rightarrow> Inl err | None \<Rightarrow>
      case uuid_in clientID of None \<Rightarrow> Inl InvalidUUID | Some cid \<Rightarrow>
      if \<not> like ''/%'' route then Inl CheckViolation
      else if list_ex (\<lambda>q. quota_client q = cid \<and> quota_route q = route) (route_quotas db)
        then Inr (db\<lparr>route_quotas := map (\<lambda>q. if quota_client q = cid \<and> quota_route q = route
          then q\<lparr>quota_rate := rate, quota_burst := burst\<rparr> else q) (route_quotas db)\<rparr>)
      else if list_ex (\<lambda>q. quota_id q = new_id) (route_quotas db) then Inl UniqueViolation
      else if \<not> list_ex (\<lambda>c. client_id c = cid) (clients db) then Inl ForeignKeyViolation
      else Inr (db\<lparr>route_quotas := route_quotas db @
        [\<lparr>quota_id = new_id, quota_client = cid, quota_route = route, quota_rate = rate, quota_burst = burst\<rparr>]\<rparr>))"

text \<open>\<open>RevokeKey\<close> returns the number of rows it changed.\<close>

definition RevokeKey :: "string option \<Rightarrow> int \<Rightarrow> gostring \<Rightarrow> directory \<Rightarrow> (int \<times> directory) outcome" where
  "RevokeKey fault now pfx db =
     (case fault of Some err \<Rightarrow> Inl (Fault err) | None \<Rightarrow>
      Inr (int (length (filter (\<lambda>k. key_prefix k = pfx \<and> key_revoked k = None) (api_keys db))),
           db\<lparr>api_keys := map (\<lambda>k. if key_prefix k = pfx \<and> key_revoked k = None
             then k\<lparr>key_revoked := Some now\<rparr> else k) (api_keys db)\<rparr>))"

section \<open>The schema's constraints\<close>

definition quota_ok :: "int \<Rightarrow> int \<Rightarrow> bool" where
  "quota_ok rate burst \<longleftrightarrow> 0 < rate \<and> rate < 2 ^ 31 \<and> 0 < burst \<and> burst < 2 ^ 31"

definition plans_ok :: "directory \<Rightarrow> bool" where
  "plans_ok db \<longleftrightarrow> distinct (map plan_id (plans db)) \<and> distinct (map plan_slug (plans db))
     \<and> (\<forall>pl\<in>set (plans db). slug_ok (plan_slug pl) \<and> quota_ok (plan_rate pl) (plan_burst pl))"

definition clients_ok :: "directory \<Rightarrow> bool" where
  "clients_ok db \<longleftrightarrow> distinct (map client_id (clients db))
     \<and> (\<forall>c\<in>set (clients db). client_plan c \<in> plan_id ` set (plans db))"

definition keys_ok :: "directory \<Rightarrow> bool" where
  "keys_ok db \<longleftrightarrow> distinct (map key_id (api_keys db)) \<and> distinct (map key_prefix (api_keys db))
     \<and> distinct (map key_hash (api_keys db))
     \<and> (\<forall>k\<in>set (api_keys db). length (key_hash k) = 32 \<and> key_client k \<in> client_id ` set (clients db))"

definition quotas_ok :: "directory \<Rightarrow> bool" where
  "quotas_ok db \<longleftrightarrow> distinct (map quota_id (route_quotas db))
     \<and> distinct (map (\<lambda>q. (quota_client q, quota_route q)) (route_quotas db))
     \<and> (\<forall>q\<in>set (route_quotas db). HasPrefix (quota_route q) ''/'' \<and> quota_ok (quota_rate q) (quota_burst q)
          \<and> quota_client q \<in> client_id ` set (clients db))"

definition directory_inv :: "directory \<Rightarrow> bool" where
  "directory_inv db \<longleftrightarrow> plans_ok db \<and> clients_ok db \<and> keys_ok db \<and> quotas_ok db"

lemmas directory_inv_defs = directory_inv_def plans_ok_def clients_ok_def keys_ok_def quotas_ok_def

lemma check_quota_None: "check_quota rate burst = None \<longleftrightarrow> quota_ok rate burst"
  by (auto simp: check_quota_def quota_ok_def in_int4_def)

lemma like_suffixes: "list_ex P (suffixes s) \<longleftrightarrow> (\<exists>t. suffix t s \<and> P t)"
  by (auto simp: list_ex_iff)

text \<open>ASCII text without the characters \<open>LIKE\<close> treats specially.\<close>

definition plain :: "gostring \<Rightarrow> bool" where
  "plain p \<longleftrightarrow> (\<forall>c\<in>set p. (of_char c :: nat) < 128) \<and> CHR ''%'' \<notin> set p \<and> CHR ''_'' \<notin> set p \<and> CHR 0x5C \<notin> set p"

lemma like_plain: "plain p \<Longrightarrow> like (p @ ''%'') s \<longleftrightarrow> prefix p s"
proof (induction p arbitrary: s)
  case Nil
  show ?case by (auto simp: like_suffixes)
next
  case (Cons c p)
  then have "plain p" "c \<noteq> CHR ''%''" "c \<noteq> CHR ''_''" "c \<noteq> CHR 0x5C" by (auto simp: plain_def)
  with Cons.IH show ?case by (cases s) (auto simp: plain_def)
qed

lemma like_slash: "like ''/%'' route \<longleftrightarrow> HasPrefix route ''/''"
  using like_plain [of "''/''" route] by (simp add: plain_def HasPrefix_def)

lemma ex_max_list: "xs \<noteq> [] \<Longrightarrow> \<exists>x\<in>set xs. \<forall>y\<in>set xs. f y \<le> (f x :: nat)"
proof -
  assume "xs \<noteq> []"
  then have "Max (f ` set xs) \<in> f ` set xs" by (intro Max_in) simp_all
  then obtain x where "x \<in> set xs" "f x = Max (f ` set xs)" by auto
  then show ?thesis by (intro bexI [of _ x]) simp_all
qed

lemma find_in_set: "find P xs = Some x \<Longrightarrow> x \<in> set xs \<and> P x"
  by (metis find_Some_iff nth_mem)

subsection \<open>Every statement keeps them\<close>

lemma map_update_key:
  "(\<And>x. f (g x) = f x) \<Longrightarrow> map f (map (\<lambda>x. if P x then g x else x) xs) = map f xs"
  by simp

lemma UpsertPlan_inv:
  assumes "UpsertPlan fault new_id slug name rate burst db = Inr (r, db')" and "directory_inv db"
  shows "directory_inv db'"
proof -
  have ok: "fault = None" "quota_ok rate burst" "slug_ok slug"
    using assms(1) by (auto simp: UpsertPlan_def check_quota_None split: option.splits if_splits)
  show ?thesis
  proof (cases "find (\<lambda>pl. plan_slug pl = slug) (plans db)")
    case None
    have "\<forall>pl\<in>set (plans db). plan_slug pl \<noteq> slug" using None by (auto simp: find_None_iff)
    moreover have "\<forall>pl\<in>set (plans db). plan_id pl \<noteq> new_id"
      using assms(1) ok None by (auto simp: UpsertPlan_def list_ex_iff split: option.splits if_splits)
    ultimately show ?thesis
      using assms None ok
      by (auto simp: UpsertPlan_def directory_inv_defs split: option.splits if_splits)
  next
    case (Some old)
    define f :: "plan_row \<Rightarrow> plan_row" where "f = (\<lambda>pl. if plan_slug pl = slug
      then pl\<lparr>plan_name := name, plan_rate := rate, plan_burst := burst\<rparr> else pl)"
    have f: "plan_id (f pl) = plan_id pl" "plan_slug (f pl) = plan_slug pl"
      "slug_ok (plan_slug pl) \<and> quota_ok (plan_rate pl) (plan_burst pl)
        \<Longrightarrow> quota_ok (plan_rate (f pl)) (plan_burst (f pl))" for pl
      using ok by (simp_all add: f_def)
    have "db' = db\<lparr>plans := map f (plans db)\<rparr>"
      using assms(1) ok Some by (auto simp: UpsertPlan_def f_def split: option.splits if_splits)
    then show ?thesis using assms(2) f by (simp add: directory_inv_defs o_def image_image)
  qed
qed

lemma CreateClient_inv:
  assumes "CreateClient fault new_id now name planSlug db = Inr (r, db')" and "directory_inv db"
  shows "directory_inv db'"
  using assms find_in_set
  by (fastforce simp: CreateClient_def directory_inv_defs list_ex_iff split: option.splits if_splits)

lemma EnsureClient_inv:
  assumes "EnsureClient fault fault' new_id now name planSlug db = Inr (r, db')" and "directory_inv db"
  shows "directory_inv db'"
  using assms CreateClient_inv by (auto simp: EnsureClient_def split: option.splits if_splits)

lemma insert_key_inv:
  assumes "insert_key new_id cid name pfx digest db = Inr (r, db')" and "length digest = 32" and "directory_inv db"
  shows "directory_inv db'"
  using assms
  by (auto simp: insert_key_def directory_inv_defs list_ex_iff split: if_splits)

lemma CreateAPIKey_inv:
  assumes "CreateAPIKey fault uuid_in new_id clientID name pfx digest db = Inr (r, db')" and "directory_inv db"
  shows "directory_inv db'"
  using assms insert_key_inv by (auto simp: CreateAPIKey_def split: option.splits if_splits)

lemma update_keys_inv:
  assumes "directory_inv db"
    and "\<And>k. key_id (f k) = key_id k \<and> key_client (f k) = key_client k \<and> key_prefix (f k) = key_prefix k
          \<and> key_hash (f k) = key_hash k"
  shows "directory_inv (db\<lparr>api_keys := map f (api_keys db)\<rparr>)"
  using assms by (simp add: directory_inv_defs o_def)

lemma EnsureAPIKey_inv:
  assumes "EnsureAPIKey fault uuid_in new_id clientID name pfx digest db = Inr (r, db')" and "directory_inv db"
  shows "directory_inv db'"
  using assms insert_key_inv
  by (auto simp: EnsureAPIKey_def split: option.splits if_splits intro!: update_keys_inv)

lemma RevokeKey_inv:
  assumes "RevokeKey fault now pfx db = Inr (r, db')" and "directory_inv db"
  shows "directory_inv db'"
  using assms by (auto simp: RevokeKey_def split: option.splits intro!: update_keys_inv)

lemma SetRouteQuota_inv:
  assumes "SetRouteQuota fault uuid_in new_id clientID route rate burst db = Inr db'" and "directory_inv db"
  shows "directory_inv db'"
proof -
  obtain cid where ok: "fault = None" "quota_ok rate burst" "uuid_in clientID = Some cid" "HasPrefix route ''/''"
    using assms(1) by (auto simp: SetRouteQuota_def check_quota_None like_slash simp del: like.simps split: option.splits if_splits)
  show ?thesis
  proof (cases "list_ex (\<lambda>q. quota_client q = cid \<and> quota_route q = route) (route_quotas db)")
    case True
    define f :: "quota_row \<Rightarrow> quota_row" where "f = (\<lambda>q. if quota_client q = cid \<and> quota_route q = route
      then q\<lparr>quota_rate := rate, quota_burst := burst\<rparr> else q)"
    have f: "quota_id (f q) = quota_id q" "quota_client (f q) = quota_client q" "quota_route (f q) = quota_route q"
      "quota_ok (quota_rate q) (quota_burst q) \<Longrightarrow> quota_ok (quota_rate (f q)) (quota_burst (f q))" for q
      using ok by (simp_all add: f_def)
    have "db' = db\<lparr>route_quotas := map f (route_quotas db)\<rparr>"
      using assms(1) ok True by (auto simp: SetRouteQuota_def f_def like_slash simp del: like.simps split: option.splits if_splits)
    then show ?thesis using assms(2) f by (simp add: directory_inv_defs o_def)
  next
    case False
    define row where "row = \<lparr>quota_id = new_id, quota_client = cid, quota_route = route,
      quota_rate = rate, quota_burst = burst\<rparr>"
    have "\<forall>q\<in>set (route_quotas db). quota_id q \<noteq> new_id" and "cid \<in> client_id ` set (clients db)"
      and db': "db' = db\<lparr>route_quotas := route_quotas db @ [row]\<rparr>"
      using assms(1) ok False
      by (auto simp: SetRouteQuota_def list_ex_iff like_slash row_def simp del: like.simps
          split: option.splits if_splits)
    moreover have "(cid, route) \<notin> (\<lambda>q. (quota_client q, quota_route q)) ` set (route_quotas db)"
      using False by (auto simp: list_ex_iff)
    ultimately show ?thesis
      using assms(2) ok unfolding db' directory_inv_defs by (simp add: row_def) blast
  qed
qed

section \<open>What a lookup finds\<close>

lemma joined_keys_iff:
  "(k, c, pl) \<in> set (joined_keys db d) \<longleftrightarrow>
     k \<in> set (api_keys db) \<and> key_hash k = d \<and> key_revoked k = None
     \<and> c \<in> set (clients db) \<and> client_id c = key_client k \<and> client_active c
     \<and> pl \<in> set (plans db) \<and> plan_id pl = client_plan c"
  by (auto simp: joined_keys_def key_rows_def)

lemma distinct_map_eq: "distinct (map f xs) \<Longrightarrow> x \<in> set xs \<Longrightarrow> y \<in> set xs \<Longrightarrow> f x = f y \<Longrightarrow> x = y"
  by (meson distinct_map inj_onD)

lemma joined_keys_unique:
  assumes "directory_inv db" and "r \<in> set (joined_keys db d)" and "r' \<in> set (joined_keys db d)"
  shows "r = r'"
proof -
  obtain k c pl where r: "r = (k, c, pl)" by (cases r)
  obtain k' c' pl' where r': "r' = (k', c', pl')" by (cases r')
  note rows = assms(2,3) [unfolded r r' joined_keys_iff]
  have "k = k'" using rows assms(1)
    by (auto simp: directory_inv_def keys_ok_def intro: distinct_map_eq [where f = key_hash])
  moreover from this have "c = c'" using rows assms(1)
    by (auto simp: directory_inv_def clients_ok_def intro: distinct_map_eq [where f = client_id])
  moreover from this have "pl = pl'" using rows assms(1)
    by (auto simp: directory_inv_def plans_ok_def intro: distinct_map_eq [where f = plan_id])
  ultimately show ?thesis by (simp add: r r')
qed

lemma LookupActiveKey_None:
  "LookupActiveKey None db d route =
     (if joined_keys db d = [] then Inl ErrInvalidKey else Inr (principal_of db route (hd (joined_keys db d))))"
  by (simp add: LookupActiveKey_def split: list.splits)

lemma LookupActiveKey_row:
  assumes "directory_inv db" and "row \<in> set (joined_keys db d)"
  shows "LookupActiveKey None db d route = Inr (principal_of db route row)"
proof -
  have "joined_keys db d \<noteq> []" using assms(2) by auto
  moreover from this have "hd (joined_keys db d) = row"
    using joined_keys_unique [OF assms(1) hd_in_set assms(2)] by simp
  ultimately show ?thesis by (simp add: LookupActiveKey_None)
qed

lemma LookupActiveKey_Inr:
  assumes "LookupActiveKey fault db d route = Inr p"
  obtains row where "row \<in> set (joined_keys db d)" and "p = principal_of db route row" and "fault = None"
  using assms by (auto simp: LookupActiveKey_def split: option.splits list.splits)

lemma route_quota_found:
  assumes "route_quota db cid route = Some q"
  shows "q \<in> set (route_quotas db)" and "quota_client q = cid" and "like (quota_route q @ ''%'') route"
    and "\<And>q'. q' \<in> set (route_quotas db) \<Longrightarrow> quota_client q' = cid \<Longrightarrow> like (quota_route q' @ ''%'') route
          \<Longrightarrow> text_length (quota_route q') \<le> text_length (quota_route q)"
proof -
  let ?qs = "matching_quotas db cid route"
  have "q \<in> set ?qs \<and> (\<forall>q'\<in>set ?qs. text_length (quota_route q') \<le> text_length (quota_route q))"
    using assms unfolding route_quota_def Let_def by (rule find_in_set)
  then show "q \<in> set (route_quotas db)" "quota_client q = cid" "like (quota_route q @ ''%'') route"
    "\<And>q'. q' \<in> set (route_quotas db) \<Longrightarrow> quota_client q' = cid \<Longrightarrow> like (quota_route q' @ ''%'') route
          \<Longrightarrow> text_length (quota_route q') \<le> text_length (quota_route q)"
    by (auto simp: matching_quotas_def)
qed

lemma route_quota_none:
  "route_quota db cid route = None \<longleftrightarrow>
     (\<forall>q\<in>set (route_quotas db). \<not> (quota_client q = cid \<and> like (quota_route q @ ''%'') route))"
proof -
  let ?qs = "matching_quotas db cid route"
  have ex: "\<exists>q\<in>set ?qs. \<forall>q'\<in>set ?qs. text_length (quota_route q') \<le> text_length (quota_route q)" if "?qs \<noteq> []"
    using that by (rule ex_max_list)
  have "route_quota db cid route = None \<longleftrightarrow> ?qs = []"
  proof (cases "?qs = []")
    case False
    then show ?thesis using ex [OF False] by (auto simp: route_quota_def Let_def find_None_iff)
  qed (simp add: route_quota_def)
  then show ?thesis by (auto simp: matching_quotas_def filter_empty_conv)
qed

text \<open>The keys a directory holds active, and whom they belong to: the laws of \<open>auth_store\<close>.\<close>

definition active_key :: "directory \<Rightarrow> gostring \<Rightarrow> bool" where
  "active_key db d \<longleftrightarrow> (\<exists>k\<in>set (api_keys db). key_hash k = d \<and> key_revoked k = None)"

definition issued_to :: "directory \<Rightarrow> gostring \<Rightarrow> Principal \<Rightarrow> bool" where
  "issued_to db d p \<longleftrightarrow> (\<exists>k\<in>set (api_keys db). key_hash k = d \<and> key_id k = KeyID p \<and> key_client k = ClientID p)"

interpretation postgres: auth_store "LookupActiveKey fault db" "active_key db" "issued_to db" for fault db
proof
  fix d route p
  assume "LookupActiveKey fault db d route = Inr p"
  then obtain k c pl where row: "(k, c, pl) \<in> set (joined_keys db d)" and p: "p = principal_of db route (k, c, pl)"
    by (metis LookupActiveKey_Inr prod_cases3)
  then show "active_key db d" and "issued_to db d p"
    by (auto simp: joined_keys_iff active_key_def issued_to_def principal_of_def Let_def)
qed

section \<open>Administration\<close>

inductive admin_step :: "directory \<Rightarrow> directory \<Rightarrow> bool" where
  plan: "UpsertPlan fault new_id slug name rate burst db = Inr (r, db') \<Longrightarrow> admin_step db db'"
| client: "CreateClient fault new_id now name planSlug db = Inr (r, db') \<Longrightarrow> admin_step db db'"
| ensure_client: "EnsureClient fault fault' new_id now name planSlug db = Inr (r, db') \<Longrightarrow> admin_step db db'"
| key: "CreateAPIKey fault uuid_in new_id clientID name pfx digest db = Inr (r, db') \<Longrightarrow> admin_step db db'"
| ensure_key: "EnsureAPIKey fault uuid_in new_id clientID name pfx digest db = Inr (r, db') \<Longrightarrow> admin_step db db'"
| quota: "SetRouteQuota fault uuid_in new_id clientID route rate burst db = Inr db' \<Longrightarrow> admin_step db db'"
| revoke: "RevokeKey fault now pfx db = Inr (n, db') \<Longrightarrow> admin_step db db'"

definition empty_directory :: directory where
  "empty_directory = \<lparr>plans = [], clients = [], api_keys = [], route_quotas = []\<rparr>"

lemma admin_step_inv: "admin_step db db' \<Longrightarrow> directory_inv db \<Longrightarrow> directory_inv db'"
  by (induction rule: admin_step.induct)
    (blast intro: UpsertPlan_inv CreateClient_inv EnsureClient_inv CreateAPIKey_inv EnsureAPIKey_inv
      SetRouteQuota_inv RevokeKey_inv)+

lemma empty_directory_inv: "directory_inv empty_directory"
  by (simp add: directory_inv_defs empty_directory_def)

lemma admin_run_inv: "admin_step\<^sup>*\<^sup>* empty_directory db \<Longrightarrow> directory_inv db"
  by (induction rule: rtranclp_induct) (auto simp: empty_directory_inv intro: admin_step_inv)

lemma principal_quota_ok:
  assumes "directory_inv db" and "row \<in> set (joined_keys db d)"
  shows "quota_ok (RatePerSecond (principal_of db route row)) (BurstCapacity (principal_of db route row))"
proof -
  obtain k c pl where row: "row = (k, c, pl)" by (cases row)
  have "quota_ok (plan_rate pl) (plan_burst pl)"
    using assms unfolding row joined_keys_iff by (simp add: directory_inv_def plans_ok_def)
  moreover have "quota_ok (quota_rate q) (quota_burst q)" if "route_quota db cid route = Some q" for q cid
    using assms(1) route_quota_found(1) [OF that] by (simp add: directory_inv_def quotas_ok_def)
  ultimately show ?thesis by (auto simp: row principal_of_def Let_def split: option.splits)
qed

lemma principal_of_keys [simp]:
  "principal_of (db\<lparr>api_keys := ks\<rparr>) = principal_of db"
  by (simp add: principal_of_def route_quota_def matching_quotas_def fun_eq_iff)

lemma key_rows_keys [simp]: "key_rows (db\<lparr>api_keys := ks\<rparr>) = key_rows db"
  by (simp add: key_rows_def fun_eq_iff cong: if_cong)

lemma joined_keys_append:
  "key_hash k \<noteq> d \<Longrightarrow> joined_keys (db\<lparr>api_keys := api_keys db @ [k]\<rparr>) d = joined_keys db d"
  by (simp add: joined_keys_def)

lemma filter_map_fixed:
  "(\<And>x. x \<in> set xs \<Longrightarrow> f x = x \<or> \<not> P x \<and> \<not> P (f x)) \<Longrightarrow> filter P (map f xs) = filter P xs"
proof (induction xs)
  case (Cons x xs)
  have "filter P (map f xs) = filter P xs" using Cons.prems by (intro Cons.IH) simp
  moreover have "f x = x \<or> \<not> P x \<and> \<not> P (f x)" using Cons.prems by simp
  ultimately show ?case by auto
qed simp

lemma joined_keys_update:
  assumes "\<And>k. k \<in> set (api_keys db) \<Longrightarrow> f k = k \<or> key_hash k \<noteq> d \<and> key_hash (f k) \<noteq> d"
  shows "joined_keys (db\<lparr>api_keys := map f (api_keys db)\<rparr>) d = joined_keys db d"
proof -
  have "filter (\<lambda>k. key_hash k = d \<and> key_revoked k = None) (map f (api_keys db))
      = filter (\<lambda>k. key_hash k = d \<and> key_revoked k = None) (api_keys db)"
    by (rule filter_map_fixed) (use assms in blast)
  then show ?thesis by (simp add: joined_keys_def)
qed

lemma text_length_plain: "plain a \<Longrightarrow> text_length a = length a"
  by (simp add: text_length_def plain_def continuation_def filter_id_conv linorder_not_le)

text \<open>A directory for the witnesses: one plan, one client, one key and a quota of its own.\<close>

definition sample_digest :: gostring where
  "sample_digest = replicate 32 (CHR ''x'')"

definition sample_key :: key_row where
  "sample_key = \<lparr>key_id = ''k1'', key_client = ''c1'', key_name = ''dev'', key_prefix = ''gw_live_a'',
     key_hash = sample_digest, key_revoked = None\<rparr>"

definition sample_client :: client_row where
  "sample_client = \<lparr>client_id = ''c1'', client_plan = ''p1'', client_name = ''acme'', client_active = True,
     client_created = 0\<rparr>"

definition sample_quota :: quota_row where
  "sample_quota = \<lparr>quota_id = ''q1'', quota_client = ''c1'', quota_route = ''/api/orders'', quota_rate = 1, quota_burst = 2\<rparr>"

definition sample_directory :: directory where
  "sample_directory = \<lparr>plans = [\<lparr>plan_id = ''p1'', plan_slug = ''dev'', plan_name = ''Dev'', plan_rate = 5, plan_burst = 10\<rparr>],
     clients = [sample_client], api_keys = [sample_key], route_quotas = [sample_quota]\<rparr>"

lemmas sample_directory_defs = sample_directory_def sample_client_def sample_quota_def sample_key_def sample_digest_def

lemma sample_directory_inv: "directory_inv sample_directory"
  by (simp add: directory_inv_defs sample_directory_defs slug_ok_def quota_ok_def HasPrefix_def)

definition sample_bootstrap :: directory where
  "sample_bootstrap = sample_directory\<lparr>route_quotas := []\<rparr>"

lemma sample_bootstrap_run: "admin_step\<^sup>*\<^sup>* empty_directory sample_bootstrap"
proof -
  define a where "a = empty_directory\<lparr>plans := plans sample_directory\<rparr>"
  define b where "b = a\<lparr>clients := clients sample_directory\<rparr>"
  have "admin_step empty_directory a"
    by (rule admin_step.plan [where fault = None and new_id = "''p1''" and slug = "''dev''" and name = "''Dev''"
          and rate = 5 and burst = 10 and r = "''p1''"])
      (simp add: a_def UpsertPlan_def check_quota_def in_int4_def slug_ok_def empty_directory_def sample_directory_def)
  moreover have "admin_step a b"
    by (rule admin_step.client [where fault = None and new_id = "''c1''" and name = "''acme''" and now = 0
          and planSlug = "''dev''" and r = "''c1''"])
      (simp add: a_def b_def CreateClient_def empty_directory_def sample_directory_def sample_client_def)
  moreover have "admin_step b sample_bootstrap"
    by (rule admin_step.key [where fault = None and uuid_in = Some and new_id = "''k1''" and name = "''dev''"
          and clientID = "''c1''" and pfx = "''gw_live_a''" and digest = sample_digest and r = "''k1''"])
      (simp add: a_def b_def CreateAPIKey_def insert_key_def empty_directory_def sample_bootstrap_def sample_directory_defs)
  ultimately show ?thesis by (simp add: converse_rtranclp_into_rtranclp)
qed

section \<open>Properties\<close>

text \<open>
  C13. Whatever sequence of administrative statements built the directory, the schema's constraints
  hold (unique identifiers, slugs, prefixes, hashes and route quotas, intact references), so that a
  successful lookup names the one active key of that digest and carries a quota the rate limiter accepts.
\<close>

theorem lookup_principal_valid:
  assumes "admin_step\<^sup>*\<^sup>* empty_directory db" and "LookupActiveKey fault db d route = Inr p"
  shows "directory_inv db \<and> quota_ok (RatePerSecond p) (BurstCapacity p)
    \<and> (\<exists>!k. k \<in> set (api_keys db) \<and> key_hash k = d) \<and> active_key db d \<and> issued_to db d p"
proof -
  have inv: "directory_inv db" using assms(1) by (rule admin_run_inv)
  obtain row where row: "row \<in> set (joined_keys db d)" "p = principal_of db route row"
    using assms(2) by (rule LookupActiveKey_Inr)
  have act: "active_key db d" by (rule postgres.lookup_active [OF assms(2)])
  then obtain k where k: "k \<in> set (api_keys db)" "key_hash k = d" by (auto simp: active_key_def)
  have "\<exists>!k. k \<in> set (api_keys db) \<and> key_hash k = d"
    using k inv by (auto simp: directory_inv_def keys_ok_def intro: distinct_map_eq [where f = key_hash])
  then show ?thesis
    using inv act principal_quota_ok [OF inv row(1)] row(2) postgres.lookup_issued [OF assms(2)] by simp
qed

theorem lookup_principal_valid_witness:
  "\<exists>p. LookupActiveKey None sample_bootstrap sample_digest ''/api/users'' = Inr p
     \<and> quota_ok (RatePerSecond p) (BurstCapacity p)"
proof -
  obtain p where "LookupActiveKey None sample_bootstrap sample_digest ''/api/users'' = Inr p"
    by (simp add: LookupActiveKey_def joined_keys_def key_rows_def sample_bootstrap_def sample_directory_defs)
  with lookup_principal_valid [OF sample_bootstrap_run this] show ?thesis by blast
qed

text \<open>
  A created key works at once: it authenticates as its client with the identifier that was
  returned, and no other digest is affected.
\<close>

lemma created_key_is_active:
  assumes "directory_inv db"
    and "CreateAPIKey fault uuid_in new_id clientID name pfx digest db = Inr (r, db')"
    and "uuid_in clientID = Some cid" and "c \<in> set (clients db)" and "client_id c = cid" and "client_active c"
  shows "(\<exists>p. LookupActiveKey None db' digest route = Inr p \<and> KeyID p = r \<and> ClientID p = cid)
    \<and> (\<forall>d. d \<noteq> digest \<longrightarrow> LookupActiveKey None db' d route = LookupActiveKey None db d route)"
proof -
  define k where "k = \<lparr>key_id = new_id, key_client = cid, key_name = name, key_prefix = pfx, key_hash = digest,
    key_revoked = None\<rparr>"
  have db': "db' = db\<lparr>api_keys := api_keys db @ [k]\<rparr>" and r: "r = new_id"
    using assms(2,3) by (auto simp: CreateAPIKey_def insert_key_def k_def split: option.splits if_splits)
  obtain pl where pl: "pl \<in> set (plans db)" "plan_id pl = client_plan c"
    using assms(1,4) by (auto simp: directory_inv_def clients_ok_def)
  have row: "(k, c, pl) \<in> set (joined_keys db' digest)"
    using assms(4-6) pl by (simp add: joined_keys_iff db' k_def)
  have "LookupActiveKey None db' digest route = Inr (principal_of db' route (k, c, pl))"
    by (rule LookupActiveKey_row [OF CreateAPIKey_inv [OF assms(2,1)] row])
  moreover have "KeyID (principal_of db' route (k, c, pl)) = r" "ClientID (principal_of db' route (k, c, pl)) = cid"
    using assms(5) by (simp_all add: principal_of_def Let_def k_def r)
  moreover have "LookupActiveKey None db' d route = LookupActiveKey None db d route" if "d \<noteq> digest" for d
    using that joined_keys_append [of k d db] by (simp add: LookupActiveKey_None db' k_def)
  ultimately show ?thesis by blast
qed

text \<open>
  C10. Revocation is complete and precise: after \<open>RevokeKey\<close> no request with a key of that prefix
  authenticates, whatever the route and the pepper, at most one key was revoked, and every key with
  another prefix is looked up as before.
\<close>

theorem revoked_key_refused:
  assumes "directory_inv db" and "RevokeKey None now pfx db = Inr (n, db')"
    and "k \<in> set (api_keys db)" and "key_hash k = Digest pepper raw"
  shows "n \<le> 1 \<and> (if key_prefix k = pfx
      then \<exists>err. Authenticate \<lparr>svc_store = LookupActiveKey fault db', svc_pepper = pepper\<rparr> raw route = Inl err
      else LookupActiveKey fault db' (key_hash k) route = LookupActiveKey fault db (key_hash k) route)"
proof -
  let ?f = "\<lambda>k. if key_prefix k = pfx \<and> key_revoked k = None then k\<lparr>key_revoked := Some now\<rparr> else k"
  have db': "db' = db\<lparr>api_keys := map ?f (api_keys db)\<rparr>"
    and n: "n = int (length (filter (\<lambda>k. key_prefix k = pfx \<and> key_revoked k = None) (api_keys db)))"
    using assms(2) by (simp_all add: RevokeKey_def)
  have hash: "k' = k" if "k' \<in> set (api_keys db)" "key_hash k' = key_hash k" for k'
    using that assms(1,3) by (auto simp: directory_inv_def keys_ok_def intro: distinct_map_eq [where f = key_hash])
  have "\<not> active_key db' (key_hash k)" if "key_prefix k = pfx"
    using that hash by (auto simp: active_key_def db' split: if_splits)
  then have "\<exists>err. Authenticate \<lparr>svc_store = LookupActiveKey fault db', svc_pepper = pepper\<rparr> raw route = Inl err"
    if "key_prefix k = pfx" using that postgres.inactive_key_refused assms(4) by metis
  moreover have "joined_keys db' (key_hash k) = joined_keys db (key_hash k)" if "key_prefix k \<noteq> pfx"
    unfolding db' using that hash by (intro joined_keys_update) auto
  then have "LookupActiveKey fault db' (key_hash k) route = LookupActiveKey fault db (key_hash k) route"
    if "key_prefix k \<noteq> pfx" using that by (simp add: LookupActiveKey_def db' split: list.split option.split)
  moreover have "distinct (map key_prefix (filter (\<lambda>k. key_prefix k = pfx \<and> key_revoked k = None) (api_keys db)))"
    using assms(1) by (simp add: directory_inv_def keys_ok_def distinct_map_filter)
  then have "length (map key_prefix (filter (\<lambda>k. key_prefix k = pfx \<and> key_revoked k = None) (api_keys db))) \<le> card {pfx}"
    by (simp only: distinct_card [symmetric]) (rule card_mono, auto)
  ultimately show ?thesis using n by simp
qed

theorem revoked_key_refused_witness:
  "\<exists>db' err. RevokeKey None 7 (Prefix ''gw_live_abc'')
       (sample_directory\<lparr>api_keys := [sample_key\<lparr>key_prefix := Prefix ''gw_live_abc'', key_hash := Digest ''pepper'' ''gw_live_abc''\<rparr>]\<rparr>)
       = Inr (1, db')
     \<and> Authenticate \<lparr>svc_store = LookupActiveKey None db', svc_pepper = ''pepper''\<rparr> ''gw_live_abc'' ''/api/users'' = Inl err"
proof -
  define k where "k = sample_key\<lparr>key_prefix := Prefix ''gw_live_abc'', key_hash := Digest ''pepper'' ''gw_live_abc''\<rparr>"
  define db where "db = sample_directory\<lparr>api_keys := [k]\<rparr>"
  have inv: "directory_inv db" using sample_directory_inv
    by (simp add: directory_inv_defs db_def k_def sample_directory_def sample_client_def sample_key_def)
  obtain db' where db': "RevokeKey None 7 (key_prefix k) db = Inr (1, db')"
    by (simp add: RevokeKey_def db_def k_def sample_key_def)
  have "\<exists>err. Authenticate \<lparr>svc_store = LookupActiveKey None db', svc_pepper = ''pepper''\<rparr> ''gw_live_abc'' ''/api/users'' = Inl err"
    using revoked_key_refused [OF inv db', of k "''pepper''" "''gw_live_abc''" None "''/api/users''"]
    by (simp add: db_def k_def)
  moreover have "key_prefix k = Prefix ''gw_live_abc''" by (simp add: k_def)
  ultimately show ?thesis using db' unfolding db_def k_def by metis
qed

text \<open>
  C23. The effective quota: for route prefixes without SQL wildcards it is the client's quota with the
  longest prefix of the route, and the plan's where no prefix matches.
\<close>

theorem effective_quota_longest_prefix:
  assumes "directory_inv db" and "(k, c, pl) \<in> set (joined_keys db d)"
    and "\<forall>q\<in>set (route_quotas db). plain (quota_route q)"
  shows "\<exists>p. LookupActiveKey None db d route = Inr p
    \<and> ((\<exists>q\<in>set (route_quotas db). quota_client q = client_id c \<and> prefix (quota_route q) route
          \<and> RatePerSecond p = quota_rate q \<and> BurstCapacity p = quota_burst q
          \<and> (\<forall>q'\<in>set (route_quotas db). quota_client q' = client_id c \<and> prefix (quota_route q') route
               \<longrightarrow> prefix (quota_route q') (quota_route q)))
      \<or> (\<forall>q\<in>set (route_quotas db). \<not> (quota_client q = client_id c \<and> prefix (quota_route q) route))
          \<and> RatePerSecond p = plan_rate pl \<and> BurstCapacity p = plan_burst pl)"
proof -
  have like: "like (quota_route q @ ''%'') route \<longleftrightarrow> prefix (quota_route q) route" if "q \<in> set (route_quotas db)" for q
    using that assms(3) by (intro like_plain) blast
  let ?p = "principal_of db route (k, c, pl)"
  have p: "LookupActiveKey None db d route = Inr ?p" by (rule LookupActiveKey_row [OF assms(1,2)])
  show ?thesis
  proof (cases "route_quota db (client_id c) route")
    case None
    then have "\<forall>q\<in>set (route_quotas db). \<not> (quota_client q = client_id c \<and> prefix (quota_route q) route)"
      using like unfolding route_quota_none by blast
    with None p show ?thesis by (simp add: principal_of_def)
  next
    case (Some q)
    note found = route_quota_found [OF Some]
    have pre: "prefix (quota_route q) route" using found(1,3) like by blast
    have "prefix (quota_route q') (quota_route q)"
      if q': "q' \<in> set (route_quotas db)" "quota_client q' = client_id c" "prefix (quota_route q') route" for q'
    proof -
      have "like (quota_route q' @ ''%'') route" using like q' by blast
      then have "text_length (quota_route q') \<le> text_length (quota_route q)" by (rule found(4) [OF q'(1,2)])
      then have "length (quota_route q') \<le> length (quota_route q)"
        using assms(3) found(1) q'(1) by (simp add: text_length_plain)
      then show ?thesis by (rule prefix_length_prefix [OF q'(3) pre])
    qed
    moreover have "RatePerSecond ?p = quota_rate q" "BurstCapacity ?p = quota_burst q"
      using Some by (simp_all add: principal_of_def)
    ultimately show ?thesis using p found(1,2) pre by blast
  qed
qed

theorem effective_quota_longest_prefix_witness:
  "\<exists>p. LookupActiveKey None sample_directory sample_digest ''/api/orders'' = Inr p
     \<and> RatePerSecond p = quota_rate sample_quota \<and> BurstCapacity p = quota_burst sample_quota"
proof -
  let ?pl = "\<lparr>plan_id = ''p1'', plan_slug = ''dev'', plan_name = ''Dev'', plan_rate = 5, plan_burst = 10\<rparr>"
  have "(sample_key, sample_client, ?pl) \<in> set (joined_keys sample_directory sample_digest)"
    by (simp add: joined_keys_iff sample_directory_defs)
  moreover have "\<forall>q\<in>set (route_quotas sample_directory). plain (quota_route q)"
    by (simp add: sample_directory_defs plain_def)
  ultimately show ?thesis
    using effective_quota_longest_prefix [OF sample_directory_inv, of sample_key sample_client ?pl sample_digest "''/api/orders''"]
    by (auto simp: sample_directory_def sample_quota_def sample_client_def)
qed

text \<open>
  A route prefix is a \<open>LIKE\<close> pattern, not a literal prefix: a quota for \<open>/api/order_\<close> also
  governs \<open>/api/orders\<close>, of which it is no prefix.
\<close>

theorem route_prefix_is_a_pattern:
  "route_quota (sample_directory\<lparr>route_quotas := [sample_quota\<lparr>quota_route := ''/api/order_''\<rparr>]\<rparr>) ''c1'' ''/api/orders''
     = Some (sample_quota\<lparr>quota_route := ''/api/order_''\<rparr>)
   \<and> \<not> prefix ''/api/order_'' ''/api/orders''"
  by (simp add: route_quota_def matching_quotas_def sample_quota_def)

text \<open>
  The bootstrap of a key can be repeated, but only under the same pepper: a second
  \<open>EnsureAPIKey\<close> with the same digest changes nothing and returns the same identifier, also after a
  revocation it makes the key active again, while the same key under another pepper, so with the same
  prefix and another digest, is refused.
\<close>

theorem ensure_key_repeatable:
  assumes "directory_inv db"
    and "EnsureAPIKey None uuid_in new_id clientID name pfx digest db = Inr (r, db')"
  shows "EnsureAPIKey None uuid_in new_id' clientID name' pfx digest db' = Inr (r, db')
    \<and> active_key db' digest
    \<and> (\<forall>k digest'. k \<in> set (api_keys db') \<and> key_prefix k = pfx
          \<and> (\<forall>k\<in>set (api_keys db'). key_hash k \<noteq> digest') \<and> length digest' = 32
        \<longrightarrow> EnsureAPIKey None uuid_in new_id' clientID name' pfx digest' db' = Inl UniqueViolation)"
proof -
  have ok: "length digest = 32" and "uuid_in clientID \<noteq> None"
    using assms(2) by (auto simp: EnsureAPIKey_def split: option.splits if_splits)
  then obtain cid where cid: "uuid_in clientID = Some cid" by auto
  have inv': "directory_inv db'" by (rule EnsureAPIKey_inv [OF assms(2,1)])
  obtain k where k: "k \<in> set (api_keys db')" "key_hash k = digest" "key_id k = r" "key_revoked k = None"
  proof (cases "find (\<lambda>k. key_hash k = digest) (api_keys db)")
    case None
    then show ?thesis
      using assms(2) ok cid that [of "\<lparr>key_id = r, key_client = cid, key_name = name, key_prefix = pfx,
        key_hash = digest, key_revoked = None\<rparr>"]
      by (auto simp: EnsureAPIKey_def insert_key_def split: if_splits)
  next
    case (Some old)
    then show ?thesis
      using assms(2) ok cid find_in_set [OF Some] that [of "old\<lparr>key_revoked := None\<rparr>"]
      by (auto simp: EnsureAPIKey_def)
  qed
  have only: "k' = k" if "k' \<in> set (api_keys db')" "key_hash k' = digest" for k'
    using that k inv' by (auto simp: directory_inv_def keys_ok_def intro: distinct_map_eq [where f = key_hash])
  have "map (\<lambda>k. if key_hash k = digest then k\<lparr>key_revoked := None\<rparr> else k) (api_keys db') = api_keys db'"
    using only k(4) by (intro map_idI) auto
  moreover have "find (\<lambda>k. key_hash k = digest) (api_keys db') = Some k"
  proof (cases "find (\<lambda>k. key_hash k = digest) (api_keys db')")
    case None
    then show ?thesis using k by (auto simp: find_None_iff)
  next
    case (Some k')
    then show ?thesis using find_in_set [OF Some] only by blast
  qed
  ultimately have "EnsureAPIKey None uuid_in new_id' clientID name' pfx digest db' = Inr (r, db')"
    using ok cid k(3) by (simp add: EnsureAPIKey_def)
  moreover have "active_key db' digest" using k by (auto simp: active_key_def)
  moreover have "EnsureAPIKey None uuid_in new_id' clientID name' pfx digest' db' = Inl UniqueViolation"
    if "k' \<in> set (api_keys db')" "key_prefix k' = pfx" "\<forall>k\<in>set (api_keys db'). key_hash k \<noteq> digest'"
      "length digest' = 32" for k' digest'
  proof -
    have "find (\<lambda>k. key_hash k = digest') (api_keys db') = None" using that(3) by (auto simp: find_None_iff)
    then show ?thesis using that(1,2,4) cid by (auto simp: EnsureAPIKey_def insert_key_def list_ex_iff)
  qed
  ultimately show ?thesis by blast
qed

theorem ensure_key_repeatable_witness:
  "EnsureAPIKey None Some ''k9'' ''c1'' ''dev'' ''gw_live_a'' sample_digest sample_directory = Inr (''k1'', sample_directory)
   \<and> EnsureAPIKey None Some ''k9'' ''c1'' ''dev'' ''gw_live_a'' (replicate 32 (CHR ''z'')) sample_directory = Inl UniqueViolation"
proof -
  have "EnsureAPIKey None Some ''k8'' ''c1'' ''dev'' ''gw_live_a'' sample_digest sample_directory = Inr (''k1'', sample_directory)"
    by (simp add: EnsureAPIKey_def sample_directory_defs)
  note again = ensure_key_repeatable [OF sample_directory_inv this, of "''k9''" "''dev''"]
  have "sample_key \<in> set (api_keys sample_directory) \<and> key_prefix sample_key = ''gw_live_a''
    \<and> (\<forall>k\<in>set (api_keys sample_directory). key_hash k \<noteq> replicate 32 (CHR ''z''))
    \<and> length (replicate 32 (CHR ''z'')) = 32"
    by (simp add: sample_directory_defs)
  with again show ?thesis by blast
qed

end
