(* ===== verification/Usage_Store.thy ===== *)
theory Usage_Store
  imports Usage_Event Key_Store
begin

text \<open>
  \<open>internal/store/usage.go\<close>: the usage tables of \<open>migrations/002_usage_logging.sql\<close> and the two
  statements that write them.  Each is one SQL statement, so it succeeds as a whole or changes
  nothing.  The conversions PostgreSQL and its driver make (text to \<open>uuid\<close>, time to
  \<open>timestamptz\<close>, \<open>date_trunc\<close>), the JSON encoding of an event and failures outside the tables are
  the fields of \<open>database\<close>.  The locale \<open>usage_store\<close> is the contract the pipeline relies on: a
  batch may be sent again after any doubt about its outcome.
\<close>

section \<open>Tables\<close>

record usage_row =
  ue_id :: gostring
  ue_request :: gostring
  ue_key :: gostring
  ue_client :: gostring
  ue_route :: gostring
  ue_method :: gostring
  ue_status :: int
  ue_duration :: int
  ue_bytes :: int
  ue_occurred :: int

type_synonym hour_key = "int \<times> gostring \<times> gostring \<times> int"

record hour_row =
  hr_count :: int
  hr_duration :: int
  hr_bytes :: int
  hr_limited :: int

record letter_row =
  dl_id :: gostring
  dl_payload :: gostring
  dl_error :: gostring
  dl_attempts :: int

record usage_tables =
  usage_events :: "usage_row list"
  usage_hourly :: "hour_key \<Rightarrow> hour_row option"
  dead_letters :: "letter_row list"

text \<open>
  \<open>uuid_in\<close>: the canonical form of a \<open>uuid\<close> literal; \<open>time_in\<close>: a Go time as \<open>timestamptz\<close>;
  \<open>trunc_hour\<close>: \<open>date_trunc('hour', \<dots>)\<close>; \<open>marshal\<close>: \<open>json.Marshal\<close>; \<open>fault\<close>: a failure of the
  statement outside the tables.
\<close>

record database =
  uuid_in :: "gostring \<Rightarrow> gostring option"
  time_in :: "int \<Rightarrow> int option"
  trunc_hour :: "int \<Rightarrow> int"
  marshal :: "Event \<Rightarrow> gostring result"
  fault :: "string option"

text \<open>The wire protocol carries the number of parameters in 16 bits.\<close>

definition max_parameters :: nat where
  "max_parameters = 65535"

section \<open>PersistUsage\<close>

fun first_invalid :: "Event list \<Rightarrow> string option" where
  "first_invalid [] = None"
| "first_invalid (e # es) = (case Validate e of Some err \<Rightarrow> Some err | None \<Rightarrow> first_invalid es)"

text \<open>A row of \<open>incoming\<close>: the ten arguments of an event after their casts.\<close>

definition incoming_row :: "database \<Rightarrow> Event \<Rightarrow> usage_row option" where
  "incoming_row D e =
     (case (uuid_in D (evID e), uuid_in D (evAPIKeyID e), uuid_in D (evClientID e), time_in D (evOccurredAt e)) of
        (Some i, Some k, Some c, Some t) \<Rightarrow>
          Some \<lparr>ue_id = i, ue_request = evRequestID e, ue_key = k, ue_client = c, ue_route = evRoute e,
                ue_method = evMethod e, ue_status = evStatusCode e, ue_duration = evDurationMicros e,
                ue_bytes = evResponseBytes e, ue_occurred = t\<rparr>
      | _ \<Rightarrow> None)"

text \<open>\<open>inserted\<close>: \<open>ON CONFLICT (event_id) DO NOTHING\<close>, also against earlier rows of the batch.\<close>

fun inserted :: "gostring set \<Rightarrow> usage_row list \<Rightarrow> usage_row list" where
  "inserted ids [] = []"
| "inserted ids (r # rs) =
     (if ue_id r \<in> ids then inserted ids rs else r # inserted (insert (ue_id r) ids) rs)"

definition hour_key :: "database \<Rightarrow> usage_row \<Rightarrow> hour_key" where
  "hour_key D r = (trunc_hour D (ue_occurred r), ue_client r, ue_route r, ue_status r)"

text \<open>\<open>GROUP BY\<close>: the row of a group, where the group is not empty.\<close>

definition aggregate :: "database \<Rightarrow> usage_row list \<Rightarrow> hour_key \<Rightarrow> hour_row option" where
  "aggregate D rs key =
     (let g = filter (\<lambda>r. hour_key D r = key) rs in
      if g = [] then None
      else Some \<lparr>hr_count = int (length g), hr_duration = sum_list (map ue_duration g),
                 hr_bytes = sum_list (map ue_bytes g),
                 hr_limited = int (length (filter (\<lambda>r. ue_status r = 429) g))\<rparr>)"

definition add_hour :: "hour_row option \<Rightarrow> hour_row option \<Rightarrow> hour_row option" where
  "add_hour old new =
     (case (old, new) of
        (None, _) \<Rightarrow> new
      | (_, None) \<Rightarrow> old
      | (Some o', Some n) \<Rightarrow>
          Some \<lparr>hr_count = hr_count o' + hr_count n, hr_duration = hr_duration o' + hr_duration n,
                hr_bytes = hr_bytes o' + hr_bytes n, hr_limited = hr_limited o' + hr_limited n\<rparr>)"

text \<open>Every total is a \<open>BIGINT\<close>.\<close>

definition hour_fits :: "hour_row option \<Rightarrow> bool" where
  "hour_fits h = (case h of None \<Rightarrow> True
     | Some r \<Rightarrow> in_int64 (hr_count r) \<and> in_int64 (hr_duration r) \<and> in_int64 (hr_bytes r) \<and> in_int64 (hr_limited r))"

definition upsert_hours :: "database \<Rightarrow> usage_row list \<Rightarrow> (hour_key \<Rightarrow> hour_row option) \<Rightarrow> (hour_key \<Rightarrow> hour_row option) option" where
  "upsert_hours D new hours =
     (if list_all (\<lambda>key. hour_fits (aggregate D new key) \<and> hour_fits (add_hour (hours key) (aggregate D new key)))
           (map (hour_key D) new)
      then Some (\<lambda>key. add_hour (hours key) (aggregate D new key))
      else None)"

definition PersistUsage :: "database \<Rightarrow> Event list \<Rightarrow> usage_tables \<Rightarrow> usage_tables result" where
  "PersistUsage D events db =
     (if events = [] then Inr db
      else case first_invalid events of Some err \<Rightarrow> Inl (''validate usage event: '' @ err) | None \<Rightarrow>
      if 10 * length events > max_parameters then Inl ''persist usage batch: too many parameters''
      else case fault D of Some err \<Rightarrow> Inl (''persist usage batch: '' @ err) | None \<Rightarrow>
      case those (map (incoming_row D) events) of
        None \<Rightarrow> Inl ''persist usage batch: invalid argument''
      | Some rows \<Rightarrow>
          let new = inserted (ue_id ` set (usage_events db)) rows in
          case upsert_hours D new (usage_hourly db) of
            None \<Rightarrow> Inl ''persist usage batch: bigint out of range''
          | Some hours \<Rightarrow> Inr (db\<lparr>usage_events := usage_events db @ new, usage_hourly := hours\<rparr>))"

section \<open>PersistUsageDeadLetters\<close>

fun marshal_all :: "database \<Rightarrow> Event list \<Rightarrow> gostring list result" where
  "marshal_all D [] = Inr []"
| "marshal_all D (e # es) =
     (case marshal D e of Inl err \<Rightarrow> Inl err
      | Inr payload \<Rightarrow> (case marshal_all D es of Inl err \<Rightarrow> Inl err | Inr ps \<Rightarrow> Inr (payload # ps)))"

definition upsert_letter :: "letter_row \<Rightarrow> letter_row list \<Rightarrow> letter_row list" where
  "upsert_letter l ls =
     (if list_ex (\<lambda>x. dl_id x = dl_id l) ls then map (\<lambda>x. if dl_id x = dl_id l then l else x) ls else ls @ [l])"

text \<open>\<open>ON CONFLICT DO UPDATE\<close> cannot affect a row twice: a batch with a repeated identifier is refused.\<close>

definition PersistUsageDeadLetters ::
  "database \<Rightarrow> Event list \<Rightarrow> gostring \<Rightarrow> int \<Rightarrow> usage_tables \<Rightarrow> usage_tables result"
where
  "PersistUsageDeadLetters D events lastError attempts db =
     (if events = [] then Inr db
      else case marshal_all D events of Inl err \<Rightarrow> Inl (''encode dead-letter event: '' @ err)
      | Inr payloads \<Rightarrow>
      if 4 * length events > max_parameters then Inl ''persist usage dead letters: too many parameters''
      else case fault D of Some err \<Rightarrow> Inl (''persist usage dead letters: '' @ err) | None \<Rightarrow>
      if \<not> in_int4 attempts then Inl ''persist usage dead letters: integer out of range''
      else case those (map (\<lambda>e. uuid_in D (evID e)) events) of
        None \<Rightarrow> Inl ''persist usage dead letters: invalid uuid''
      | Some ids \<Rightarrow>
          if attempts \<le> 0 then Inl ''persist usage dead letters: check violation''
          else if \<not> distinct ids then Inl ''persist usage dead letters: cannot affect row a second time''
          else Inr (db\<lparr>dead_letters :=
            fold (\<lambda>(i, payload). upsert_letter \<lparr>dl_id = i, dl_payload = payload, dl_error = lastError,
                    dl_attempts = attempts\<rparr>) (zip ids payloads) (dead_letters db)\<rparr>))"

section \<open>Facts on the two statements\<close>

lemma those_map_Some: "those (map f xs) = Some ys \<longleftrightarrow> list_all2 (\<lambda>x y. f x = Some y) xs ys"
proof (induction xs arbitrary: ys)
  case (Cons x xs)
  then show ?case by (cases ys) (auto split: option.splits)
qed auto

lemma inserted_ids:
  "ue_id ` set (inserted ids rs) = ue_id ` set rs - ids"
  "distinct (map ue_id (inserted ids rs))"
  by (induction ids rs rule: inserted.induct) auto

lemma inserted_present: "ue_id ` set rs \<subseteq> ids \<Longrightarrow> inserted ids rs = []"
  by (induction ids rs rule: inserted.induct) auto

lemma add_hour_None [simp]: "add_hour h None = h" "add_hour None h = h"
  by (simp_all add: add_hour_def split: option.splits)

lemma aggregate_Nil [simp]: "aggregate D [] key = None"
  by (simp add: aggregate_def)

lemma aggregate_append: "aggregate D (xs @ ys) key = add_hour (aggregate D xs key) (aggregate D ys key)"
  by (auto simp: aggregate_def add_hour_def Let_def filter_empty_conv)

lemma aggregate_fault [simp]: "aggregate (D\<lparr>fault := f\<rparr>) = aggregate D"
  by (simp add: aggregate_def hour_key_def fun_eq_iff)

lemma incoming_row_fault [simp]: "incoming_row (D\<lparr>fault := f\<rparr>) = incoming_row D"
  by (simp add: incoming_row_def fun_eq_iff)

lemma incoming_row_id: "incoming_row D e = Some r \<Longrightarrow> uuid_in D (evID e) = Some (ue_id r)"
  by (auto simp: incoming_row_def split: option.splits)

lemma upsert_hours_Some:
  "upsert_hours D new hours = Some hours' \<Longrightarrow> hours' = (\<lambda>key. add_hour (hours key) (aggregate D new key))"
  by (simp add: upsert_hours_def split: if_splits)

lemma first_invalid_None: "first_invalid es = None \<longleftrightarrow> (\<forall>e\<in>set es. valid_event e)"
  by (induction es) (auto split: option.splits)

text \<open>What a successful call of \<open>PersistUsage\<close> did.\<close>

lemma PersistUsage_Inr:
  assumes "PersistUsage D es db = Inr db'"
  obtains rows where "list_all2 (\<lambda>e r. incoming_row D e = Some r) es rows"
    and "db' = db\<lparr>usage_events := usage_events db @ inserted (ue_id ` set (usage_events db)) rows,
      usage_hourly := (\<lambda>key. add_hour (usage_hourly db key)
        (aggregate D (inserted (ue_id ` set (usage_events db)) rows) key))\<rparr>"
    and "\<forall>e\<in>set es. valid_event e" and "10 * length es \<le> max_parameters"
proof (cases "es = []")
  case True
  then show thesis using assms that [of "[]"] by (simp add: PersistUsage_def)
next
  case False
  then obtain rows where rows: "those (map (incoming_row D) es) = Some rows"
    using assms by (auto simp: PersistUsage_def split: option.splits if_splits)
  let ?new = "inserted (ue_id ` set (usage_events db)) rows"
  obtain hours where hours: "upsert_hours D ?new (usage_hourly db) = Some hours"
    and db': "db' = db\<lparr>usage_events := usage_events db @ ?new, usage_hourly := hours\<rparr>"
    and "first_invalid es = None" and "10 * length es \<le> max_parameters"
    using assms False rows by (auto simp: PersistUsage_def Let_def split: option.splits if_splits)
  then show thesis
    using that [of rows] rows upsert_hours_Some [OF hours] by (simp add: those_map_Some first_invalid_None)
qed

definition usage_inv :: "database \<Rightarrow> usage_tables \<Rightarrow> bool" where
  "usage_inv D db \<longleftrightarrow> distinct (map ue_id (usage_events db))
     \<and> usage_hourly db = aggregate D (usage_events db)
     \<and> distinct (map dl_id (dead_letters db))"

definition recorded :: "database \<Rightarrow> usage_tables \<Rightarrow> Event \<Rightarrow> bool" where
  "recorded D db e \<longleftrightarrow> (\<exists>r\<in>set (usage_events db). uuid_in D (evID e) = Some (ue_id r))"

lemma PersistUsage_inv:
  assumes "PersistUsage D es db = Inr db'" and "usage_inv D db"
  shows "usage_inv D db'"
proof -
  obtain rows where "db' = db\<lparr>usage_events := usage_events db @ inserted (ue_id ` set (usage_events db)) rows,
      usage_hourly := (\<lambda>key. add_hour (usage_hourly db key)
        (aggregate D (inserted (ue_id ` set (usage_events db)) rows) key))\<rparr>"
    using assms(1) by (rule PersistUsage_Inr)
  then show ?thesis
    using assms(2) inserted_ids [of "ue_id ` set (usage_events db)" rows]
    by (auto simp: usage_inv_def aggregate_append)
qed

lemma list_all2_ids:
  "list_all2 (\<lambda>e r. incoming_row D e = Some r) es rows \<Longrightarrow>
     list_all2 (\<lambda>e r. uuid_in D (evID e) = Some (ue_id r)) es rows"
  by (rule list_all2_mono) (use incoming_row_id in blast)+

lemma PersistUsage_records:
  assumes "PersistUsage D es db = Inr db'" and "e \<in> set es \<or> recorded D db e"
  shows "recorded D db' e"
proof -
  obtain rows where rows: "list_all2 (\<lambda>e r. incoming_row D e = Some r) es rows"
    and db': "db' = db\<lparr>usage_events := usage_events db @ inserted (ue_id ` set (usage_events db)) rows,
      usage_hourly := (\<lambda>key. add_hour (usage_hourly db key)
        (aggregate D (inserted (ue_id ` set (usage_events db)) rows) key))\<rparr>"
    using assms(1) by (rule PersistUsage_Inr)
  let ?I = "ue_id ` set (usage_events db)"
  have ids: "ue_id ` set (usage_events db') = ?I \<union> ue_id ` set rows"
    using inserted_ids(1) [of ?I rows] by (auto simp: db' image_Un)
  have "\<exists>r\<in>set rows. uuid_in D (evID e) = Some (ue_id r)" if "e \<in> set es"
    using list_all2_ids [OF rows] that by (fastforce simp: list_all2_conv_all_nth in_set_conv_nth)
  then have "\<exists>i\<in>ue_id ` set (usage_events db'). uuid_in D (evID e) = Some i"
    using assms(2) unfolding ids recorded_def by blast
  then show ?thesis by (auto simp: recorded_def)
qed

text \<open>Sending events that are all recorded already changes nothing.\<close>

lemma PersistUsage_again:
  assumes "\<forall>e\<in>set es. valid_event e \<and> recorded D db e \<and> incoming_row D e \<noteq> None"
    and "10 * length es \<le> max_parameters" and "fault D = None"
  shows "PersistUsage D es db = Inr db"
proof (cases "es = []")
  case False
  have "list_all2 (\<lambda>e r. incoming_row D e = Some r) es (map (\<lambda>e. the (incoming_row D e)) es)"
    using assms(1) by (auto simp: list_all2_conv_all_nth)
  then have rows: "those (map (incoming_row D) es) = Some (map (\<lambda>e. the (incoming_row D e)) es)"
    by (simp add: those_map_Some)
  have "ue_id (the (incoming_row D e)) \<in> ue_id ` set (usage_events db)" if e: "e \<in> set es" for e
  proof -
    obtain r where r: "incoming_row D e = Some r" using assms(1) e by blast
    obtain q where "q \<in> set (usage_events db)" "uuid_in D (evID e) = Some (ue_id q)"
      using assms(1) e by (auto simp: recorded_def)
    then show ?thesis using incoming_row_id [OF r] r by simp
  qed
  then have "inserted (ue_id ` set (usage_events db)) (map (\<lambda>e. the (incoming_row D e)) es) = []"
    by (intro inserted_present) auto
  moreover have "first_invalid es = None" using assms(1) by (simp add: first_invalid_None)
  ultimately show ?thesis
    using assms(2,3) False rows by (simp add: PersistUsage_def upsert_hours_def)
qed (simp add: PersistUsage_def)

lemma PersistUsage_retry:
  assumes "PersistUsage D es db = Inr db'"
  shows "PersistUsage D es db' = Inr db'"
proof (cases "es = []")
  case False
  then have "fault D = None" using assms by (auto simp: PersistUsage_def split: option.splits if_splits)
  moreover obtain rows where rows: "list_all2 (\<lambda>e r. incoming_row D e = Some r) es rows"
    and "\<forall>e\<in>set es. valid_event e" and "10 * length es \<le> max_parameters"
    using assms by (rule PersistUsage_Inr)
  moreover from rows have "\<forall>e\<in>set es. incoming_row D e \<noteq> None"
    by (auto simp: list_all2_conv_all_nth in_set_conv_nth)
  ultimately show ?thesis using PersistUsage_records [OF assms] by (intro PersistUsage_again) auto
qed (use assms in \<open>simp add: PersistUsage_def\<close>)

lemma marshal_all_Inr: "marshal_all D es = Inr ps \<Longrightarrow> list_all2 (\<lambda>e p. marshal D e = Inr p) es ps"
  by (induction es arbitrary: ps) (auto split: sum.splits)

section \<open>The store interface\<close>

text \<open>The effect of a history of batches that reached the store, acknowledged or not.\<close>

definition replay :: "(Event list \<Rightarrow> 'db \<Rightarrow> 'db result) \<Rightarrow> Event list list \<Rightarrow> 'db \<Rightarrow> 'db" where
  "replay persist = fold (\<lambda>b db. case persist b db of Inl err \<Rightarrow> db | Inr db' \<Rightarrow> db')"

locale usage_store =
  fixes persist :: "Event list \<Rightarrow> 'db \<Rightarrow> 'db result"
    and holds :: "'db \<Rightarrow> Event \<Rightarrow> bool"
  assumes persist_records: "persist es db = Inr db' \<Longrightarrow> e \<in> set es \<Longrightarrow> holds db' e"
    and persist_keeps: "persist es db = Inr db' \<Longrightarrow> holds db e \<Longrightarrow> holds db' e"
    and persist_retry: "persist es db = Inr db' \<Longrightarrow> persist es db' = Inr db'"
begin

lemma replay_keeps: "holds db e \<Longrightarrow> holds (replay persist bs db) e"
  unfolding replay_def
  by (induction bs arbitrary: db) (auto split: sum.splits intro: persist_keeps)

lemma replay_records:
  "persist b (replay persist bs db) = Inr db' \<Longrightarrow> e \<in> set b \<Longrightarrow> holds (replay persist (bs @ b # cs) db) e"
  using replay_keeps [of db' e cs] persist_records by (simp add: replay_def)

text \<open>A batch that was committed without being acknowledged and is sent again counts once.\<close>

lemma replay_duplicate: "replay persist (bs @ b # b # cs) db = replay persist (bs @ b # cs) db"
  using persist_retry by (simp add: replay_def split: sum.split)

end

interpretation usage_db: usage_store "PersistUsage D" "recorded D" for D
  by unfold_locales (auto intro: PersistUsage_records PersistUsage_retry)

definition empty_tables :: usage_tables where
  "empty_tables = \<lparr>usage_events = [], usage_hourly = (\<lambda>key. None), dead_letters = []\<rparr>"

lemma replay_inv: "usage_inv D db \<Longrightarrow> usage_inv D (replay (PersistUsage D) bs db)"
  unfolding replay_def
  by (induction bs arbitrary: db) (auto split: sum.splits intro: PersistUsage_inv)

lemma empty_tables_inv: "usage_inv D empty_tables"
  by (simp add: usage_inv_def empty_tables_def fun_eq_iff)

lemma upsert_letter_ids: "dl_id ` set (upsert_letter l ls) = insert (dl_id l) (dl_id ` set ls)"
  by (auto simp: upsert_letter_def list_ex_iff image_iff)

lemma upsert_letter_distinct: "distinct (map dl_id ls) \<Longrightarrow> distinct (map dl_id (upsert_letter l ls))"
proof (cases "list_ex (\<lambda>x. dl_id x = dl_id l) ls")
  case True
  have "map dl_id (upsert_letter l ls) = map dl_id ls" using True by (auto simp: upsert_letter_def)
  then show "distinct (map dl_id ls) \<Longrightarrow> distinct (map dl_id (upsert_letter l ls))" by simp
qed (auto simp: upsert_letter_def list_ex_iff)

lemma upsert_letter_mem: "l \<in> set (upsert_letter l ls)"
  by (auto simp: upsert_letter_def list_ex_iff)

lemma upsert_letter_other: "x \<in> set ls \<Longrightarrow> dl_id x \<noteq> dl_id l \<Longrightarrow> x \<in> set (upsert_letter l ls)"
  by (auto simp: upsert_letter_def)

lemma upsert_letters_distinct:
  "distinct (map dl_id ls) \<Longrightarrow> distinct (map dl_id (fold upsert_letter new ls))"
  by (induction new arbitrary: ls) (simp_all add: upsert_letter_distinct)

lemma upsert_letters_other:
  "x \<in> set ls \<Longrightarrow> dl_id x \<notin> dl_id ` set new \<Longrightarrow> x \<in> set (fold upsert_letter new ls)"
  by (induction new arbitrary: ls) (auto simp: upsert_letter_other)

lemma upsert_letters_mem:
  "distinct (map dl_id new) \<Longrightarrow> l \<in> set new \<Longrightarrow> l \<in> set (fold upsert_letter new ls)"
proof (induction new arbitrary: ls)
  case (Cons l' new)
  then show ?case using upsert_letters_other [of l "upsert_letter l ls" new] upsert_letter_mem [of l ls] by auto
qed simp

text \<open>What a successful call of \<open>PersistUsageDeadLetters\<close> did: it upserted the letter of every event.\<close>

definition letter_of :: "database \<Rightarrow> gostring \<Rightarrow> int \<Rightarrow> Event \<Rightarrow> letter_row \<Rightarrow> bool" where
  "letter_of D lastError attempts e l \<longleftrightarrow> uuid_in D (evID e) = Some (dl_id l) \<and> marshal D e = Inr (dl_payload l)
     \<and> dl_error l = lastError \<and> dl_attempts l = attempts"

lemma PersistUsageDeadLetters_Inr:
  assumes "PersistUsageDeadLetters D es lastError attempts db = Inr db'"
  obtains new where "db' = db\<lparr>dead_letters := fold upsert_letter new (dead_letters db)\<rparr>"
    and "list_all2 (letter_of D lastError attempts) es new" and "distinct (map dl_id new)"
proof (cases "es = []")
  case True
  then show thesis using assms that [of "[]"] by (simp add: PersistUsageDeadLetters_def)
next
  case False
  then obtain payloads ids where ps: "marshal_all D es = Inr payloads"
    and ids: "those (map (\<lambda>e. uuid_in D (evID e)) es) = Some ids" "distinct ids"
    and db': "db' = db\<lparr>dead_letters := fold (\<lambda>(i, payload). upsert_letter \<lparr>dl_id = i, dl_payload = payload,
        dl_error = lastError, dl_attempts = attempts\<rparr>) (zip ids payloads) (dead_letters db)\<rparr>"
    using assms by (auto simp: PersistUsageDeadLetters_def split: sum.splits option.splits if_splits)
  let ?new = "map (\<lambda>(i, payload). \<lparr>dl_id = i, dl_payload = payload, dl_error = lastError, dl_attempts = attempts\<rparr>) (zip ids payloads)"
  have all: "list_all2 (\<lambda>e i. uuid_in D (evID e) = Some i) es ids" using ids(1) by (simp add: those_map_Some)
  have len: "length ids = length es" "length payloads = length es"
    using marshal_all_Inr [OF ps] all by (auto dest: list_all2_lengthD)
  have "fold upsert_letter ?new (dead_letters db) = dead_letters db'"
    by (simp add: db' fold_map comp_def case_prod_unfold)
  moreover have "map dl_id ?new = ids" using len by (intro nth_equalityI) simp_all
  ultimately show thesis
    using that [of ?new] db' ids(2) all marshal_all_Inr [OF ps] len by (simp add: list_all2_conv_all_nth letter_of_def)
qed

section \<open>Properties\<close>

text \<open>
  C8. Aggregates never drift: whatever batches reach the store, in whatever order, with retries,
  overlaps and repeated identifiers, every event identifier is stored once and every hourly row is
  exactly the count, the sums and the number of rate-limited requests of the stored events of its hour,
  client, route and status.
\<close>

theorem hourly_totals_exact:
  "distinct (map ue_id (usage_events (replay (PersistUsage D) bs empty_tables)))
   \<and> usage_hourly (replay (PersistUsage D) bs empty_tables)
       = aggregate D (usage_events (replay (PersistUsage D) bs empty_tables))"
  using replay_inv [OF empty_tables_inv] by (simp add: usage_inv_def)

text \<open>
  C20. A retry is safe: a batch that was committed, sent again, succeeds and changes nothing, and a batch
  committed without acknowledgement and sent again leaves the tables as if it had been sent once; its
  events are in the table from then on, whatever is stored later.
\<close>

theorem persist_retry_idempotent:
  assumes "PersistUsage D b (replay (PersistUsage D) bs db) = Inr db'"
  shows "PersistUsage D b db' = Inr db'
    \<and> replay (PersistUsage D) (bs @ b # b # cs) db = replay (PersistUsage D) (bs @ b # cs) db
    \<and> (\<forall>e\<in>set b. recorded D (replay (PersistUsage D) (bs @ b # cs) db) e)"
  using usage_db.persist_retry [OF assms] usage_db.replay_duplicate usage_db.replay_records [OF assms] by auto

definition sample_database :: database where
  "sample_database = \<lparr>uuid_in = Some, time_in = (\<lambda>t. Some (t div 1000)), trunc_hour = (\<lambda>t. t - t mod 3600000000),
     marshal = (\<lambda>e. Inr (evID e)), fault = None\<rparr>"

definition sample_usage :: "gostring \<Rightarrow> int \<Rightarrow> Event" where
  "sample_usage i status = \<lparr>evID = i, evRequestID = ''r'', evAPIKeyID = ''k'', evClientID = ''c'',
     evRoute = ''/api/users'', evMethod = ''GET'', evStatusCode = status, evDurationMicros = 1500,
     evResponseBytes = 20, evOccurredAt = 5000000\<rparr>"

lemma valid_sample_usage: "i \<noteq> [] \<Longrightarrow> graphic (hd i) \<Longrightarrow> graphic (last i) \<Longrightarrow> 100 \<le> status \<Longrightarrow> status \<le> 599 \<Longrightarrow>
  valid_event (sample_usage i status)"
  by (simp add: valid_event_iff sample_usage_def TrimSpace_graphic graphic_def HasPrefix_def zero_time_def)

lemma valid_sample_usages: "valid_event (sample_usage ''e1'' 200)" "valid_event (sample_usage ''e2'' 429)"
  by (rule valid_sample_usage; simp add: graphic_def)+

definition sample_row :: "gostring \<Rightarrow> int \<Rightarrow> usage_row" where
  "sample_row i status = \<lparr>ue_id = i, ue_request = ''r'', ue_key = ''k'', ue_client = ''c'', ue_route = ''/api/users'',
     ue_method = ''GET'', ue_status = status, ue_duration = 1500, ue_bytes = 20, ue_occurred = 5000\<rparr>"

lemma sample_incoming: "incoming_row sample_database (sample_usage i status) = Some (sample_row i status)"
  by (simp add: incoming_row_def sample_database_def sample_usage_def sample_row_def)

lemma sample_hour_key: "hour_key sample_database (sample_row i status) = (0, ''c'', ''/api/users'', status)"
  by (simp add: hour_key_def sample_database_def sample_row_def)

lemma sample_row_fields: "ue_id (sample_row i status) = i" "ue_status (sample_row i status) = status"
  "ue_duration (sample_row i status) = 1500" "ue_bytes (sample_row i status) = 20"
  by (simp_all add: sample_row_def)

lemma sample_persisted:
  "\<exists>db'. PersistUsage sample_database [sample_usage ''e1'' 200, sample_usage ''e2'' 429] empty_tables = Inr db'"
proof -
  let ?rows = "[sample_row ''e1'' 200, sample_row ''e2'' 429]"
  have "first_invalid [sample_usage ''e1'' 200, sample_usage ''e2'' 429] = None"
    by (simp add: first_invalid_None valid_sample_usages)
  moreover have "inserted {} ?rows = ?rows" by (simp add: sample_row_fields)
  moreover have "upsert_hours sample_database ?rows (\<lambda>key. None) \<noteq> None"
    by (simp add: upsert_hours_def sample_hour_key aggregate_def hour_fits_def in_int64_def sample_row_fields)
  moreover have "fault sample_database = None" by (simp add: sample_database_def)
  ultimately show ?thesis
    by (auto simp: PersistUsage_def max_parameters_def sample_incoming empty_tables_def Let_def)
qed

theorem persist_retry_idempotent_witness:
  "\<exists>db'. PersistUsage sample_database [sample_usage ''e1'' 200, sample_usage ''e2'' 429] empty_tables = Inr db'
     \<and> PersistUsage sample_database [sample_usage ''e1'' 200, sample_usage ''e2'' 429] db' = Inr db'"
proof -
  obtain db' where "PersistUsage sample_database [sample_usage ''e1'' 200, sample_usage ''e2'' 429] empty_tables = Inr db'"
    using sample_persisted by blast
  then show ?thesis
    using persist_retry_idempotent [of sample_database _ "[]" empty_tables db'] by (simp add: replay_def)
qed



text \<open>
  Dead letters: after a successful write there is exactly one letter for every event of the batch,
  with that event's encoding, the last error and the number of attempts, and the letters of other
  events are kept; a batch with a repeated identifier is refused.
\<close>

theorem dead_letters_upserted:
  assumes "PersistUsageDeadLetters D es lastError attempts db = Inr db'" and "distinct (map dl_id (dead_letters db))"
    and "i < length es"
  shows "(\<exists>!l. l \<in> set (dead_letters db') \<and> uuid_in D (evID (es ! i)) = Some (dl_id l))
    \<and> (\<exists>l\<in>set (dead_letters db'). uuid_in D (evID (es ! i)) = Some (dl_id l) \<and> marshal D (es ! i) = Inr (dl_payload l)
         \<and> dl_error l = lastError \<and> dl_attempts l = attempts)
    \<and> (\<forall>l\<in>set (dead_letters db). (\<forall>e\<in>set es. uuid_in D (evID e) \<noteq> Some (dl_id l)) \<longrightarrow> l \<in> set (dead_letters db'))
    \<and> distinct (map (\<lambda>e. uuid_in D (evID e)) es)"
proof -
  obtain new where db': "db' = db\<lparr>dead_letters := fold upsert_letter new (dead_letters db)\<rparr>"
    and new: "list_all2 (letter_of D lastError attempts) es new" "distinct (map dl_id new)"
    using assms(1) by (rule PersistUsageDeadLetters_Inr)
  have letters: "dead_letters db' = fold upsert_letter new (dead_letters db)" by (simp add: db')
  have len: "length new = length es" using new(1) by (simp add: list_all2_lengthD)
  have at: "letter_of D lastError attempts (es ! j) (new ! j)" if "j < length es" for j
    using new(1) that by (rule list_all2_nthD)
  have dist: "distinct (map dl_id (dead_letters db'))"
    unfolding letters by (rule upsert_letters_distinct [OF assms(2)])
  have mem: "new ! i \<in> set (dead_letters db')"
    unfolding letters using assms(3) len by (intro upsert_letters_mem [OF new(2)] nth_mem) simp
  have "\<exists>!l. l \<in> set (dead_letters db') \<and> uuid_in D (evID (es ! i)) = Some (dl_id l)"
    using mem at [OF assms(3)] dist by (intro ex1I [of _ "new ! i"]) (auto simp: letter_of_def intro: distinct_map_eq)
  moreover have "l \<in> set (dead_letters db')"
    if "l \<in> set (dead_letters db)" "\<forall>e\<in>set es. uuid_in D (evID e) \<noteq> Some (dl_id l)" for l
  proof -
    have "dl_id l \<notin> dl_id ` set new"
      using at that(2) by (fastforce simp: in_set_conv_nth len letter_of_def)
    then show ?thesis unfolding letters using that(1) by (intro upsert_letters_other)
  qed
  moreover have "map (\<lambda>e. uuid_in D (evID e)) es = map Some (map dl_id new)"
    using at len by (intro nth_equalityI) (simp_all add: letter_of_def)
  then have "distinct (map (\<lambda>e. uuid_in D (evID e)) es)" using new(2) by (simp add: distinct_map inj_on_def)
  moreover have "\<exists>l\<in>set (dead_letters db'). uuid_in D (evID (es ! i)) = Some (dl_id l)
      \<and> marshal D (es ! i) = Inr (dl_payload l) \<and> dl_error l = lastError \<and> dl_attempts l = attempts"
    using mem at [OF assms(3)] by (intro bexI [of _ "new ! i"]) (simp_all add: letter_of_def)
  ultimately show ?thesis by blast
qed

theorem dead_letters_upserted_witness:
  "\<exists>db'. PersistUsageDeadLetters sample_database [sample_usage ''e1'' 200] ''boom'' 3 empty_tables = Inr db'
     \<and> (\<exists>l\<in>set (dead_letters db'). dl_error l = ''boom'' \<and> dl_attempts l = 3)"
proof -
  obtain db' where "PersistUsageDeadLetters sample_database [sample_usage ''e1'' 200] ''boom'' 3 empty_tables = Inr db'"
    by (simp add: PersistUsageDeadLetters_def sample_database_def max_parameters_def in_int4_def)
  with dead_letters_upserted [OF this, of 0] show ?thesis by (auto simp: empty_tables_def)
qed

end
