(* ===== verification/Usage_Delivery.thy ===== *)
theory Usage_Delivery
  imports Usage_Pipeline Usage_Store
begin

text \<open>
  The usage pipeline connected to its store: \<open>Pipeline.persist\<close> (\<open>internal/usage/pipeline.go\<close>)
  calls \<open>PersistUsage\<close> and \<open>PersistUsageDeadLetters\<close> (\<open>internal/store/usage.go\<close>) on the
  tables it shares with the other gateway instances.  A statement takes effect and is acknowledged,
  takes effect while its acknowledgement is lost, or fails.  Every step of the composed system is a step
  of the pipeline or none, so the pipeline's invariants carry over; the invariant added here ties the
  fate the worker reports for a batch to the rows of the tables.
\<close>

section \<open>The composed system\<close>

record delivery =
  local_pipe :: Pipeline
  tables :: usage_tables
  foreign :: "Event list"

text \<open>The attempt of \<open>persist\<close> that calls the store, with what the statement did and what its caller learnt.\<close>

inductive store_step :: "PipelineConfig \<Rightarrow> database \<Rightarrow> delivery \<Rightarrow> delivery \<Rightarrow> bool" for cfg D where
  persisted: "worker (local_pipe s) = Persisting attempt batch k \<Longrightarrow>
    PersistUsage (D\<lparr>fault := f\<rparr>) batch (tables s) = Inr db \<Longrightarrow>
    store_step cfg D s (s\<lparr>local_pipe := persist_ok batch k (local_pipe s), tables := db\<rparr>)"
| unacknowledged: "worker (local_pipe s) = Persisting attempt batch k \<Longrightarrow>
    PersistUsage (D\<lparr>fault := f\<rparr>) batch (tables s) = Inr db \<Longrightarrow>
    store_step cfg D s (s\<lparr>local_pipe := persist_failed cfg attempt batch k (local_pipe s), tables := db\<rparr>)"
| rejected: "worker (local_pipe s) = Persisting attempt batch k \<Longrightarrow>
    PersistUsage (D\<lparr>fault := f\<rparr>) batch (tables s) = Inl err \<Longrightarrow>
    store_step cfg D s (s\<lparr>local_pipe := persist_failed cfg attempt batch k (local_pipe s)\<rparr>)"
| buried: "worker (local_pipe s) = DeadLettering batch k \<Longrightarrow>
    PersistUsageDeadLetters (D\<lparr>fault := f\<rparr>) batch lastErr (MaxAttempts cfg) (tables s) = Inr db \<Longrightarrow>
    store_step cfg D s (s\<lparr>local_pipe := dead_letter_ok batch k (local_pipe s), tables := db\<rparr>)"
| burial_unacknowledged: "worker (local_pipe s) = DeadLettering batch k \<Longrightarrow>
    PersistUsageDeadLetters (D\<lparr>fault := f\<rparr>) batch lastErr (MaxAttempts cfg) (tables s) = Inr db \<Longrightarrow>
    store_step cfg D s (s\<lparr>local_pipe := dead_letter_failed batch k (local_pipe s), tables := db\<rparr>)"
| burial_rejected: "worker (local_pipe s) = DeadLettering batch k \<Longrightarrow>
    PersistUsageDeadLetters (D\<lparr>fault := f\<rparr>) batch lastErr (MaxAttempts cfg) (tables s) = Inl err \<Longrightarrow>
    store_step cfg D s (s\<lparr>local_pipe := dead_letter_failed batch k (local_pipe s)\<rparr>)"

text \<open>\<open>elsewhere\<close> and \<open>letters_elsewhere\<close> are the other instances, whose events are collected in \<open>foreign\<close>.\<close>

inductive delivery_step :: "PipelineConfig \<Rightarrow> database \<Rightarrow> delivery \<Rightarrow> delivery \<Rightarrow> bool" for cfg D where
  store: "store_step cfg D s s' \<Longrightarrow> delivery_step cfg D s s'"
| quiet: "pipeline_step cfg (local_pipe s) p \<Longrightarrow> worker p = worker (local_pipe s) \<or> \<not> at_store (worker (local_pipe s)) \<Longrightarrow>
    delivery_step cfg D s (s\<lparr>local_pipe := p\<rparr>)"
| elsewhere: "PersistUsage (D\<lparr>fault := f\<rparr>) batch (tables s) = Inr db \<Longrightarrow>
    delivery_step cfg D s (s\<lparr>tables := db, foreign := foreign s @ batch\<rparr>)"
| letters_elsewhere: "PersistUsageDeadLetters (D\<lparr>fault := f\<rparr>) batch lastErr attempts (tables s) = Inr db \<Longrightarrow>
    delivery_step cfg D s (s\<lparr>tables := db, foreign := foreign s @ batch\<rparr>)"

inductive deliverable :: "PipelineConfig \<Rightarrow> database \<Rightarrow> delivery \<Rightarrow> bool" for cfg D where
  start: "NewPipeline True cfg = Inr p \<Longrightarrow> deliverable cfg D \<lparr>local_pipe = p, tables = empty_tables, foreign = []\<rparr>"
| step: "deliverable cfg D s \<Longrightarrow> delivery_step cfg D s s' \<Longrightarrow> deliverable cfg D s'"

section \<open>The pipeline inside\<close>

lemma store_step_pipeline: "store_step cfg D s s' \<Longrightarrow> pipeline_step cfg (local_pipe s) (local_pipe s')"
  by (induction rule: store_step.induct) (auto intro!: pipeline_step.work intro: worker_step.intros)

lemma delivery_step_pipeline:
  "delivery_step cfg D s s' \<Longrightarrow> local_pipe s' = local_pipe s \<or> pipeline_step cfg (local_pipe s) (local_pipe s')"
  by (induction rule: delivery_step.induct) (simp_all add: store_step_pipeline)

lemma deliverable_reachable: "deliverable cfg D s \<Longrightarrow> reachable cfg (local_pipe s)"
proof (induction rule: deliverable.induct)
  case (step s s')
  then show ?case using delivery_step_pipeline [OF step.hyps(2)] reachable.step by auto
qed (simp add: reachable.start)

lemma accepted_step: "pipeline_step cfg p p' \<Longrightarrow> set (accepted p) \<subseteq> set (accepted p')"
proof (induction rule: pipeline_step.induct)
  case (work s s')
  then show ?case by (induction rule: worker_step.induct) (auto simp: worker_ops pipe Let_def)
qed (auto simp: client_ops pipe enqueuer_step_fields)

text \<open>Apart from the calls of the store, the worker gives batches up only as lost.\<close>

definition gives_up :: "Pipeline \<Rightarrow> Pipeline \<Rightarrow> bool" where
  "gives_up p p' \<longleftrightarrow> set (settled p') \<subseteq> set (settled p) \<union> {(b, f). f = Lost}"

lemma quiet_worker_step: "worker_step cfg p p' \<Longrightarrow> worker p' = worker p \<or> \<not> at_store (worker p) \<Longrightarrow> gives_up p p'"
  by (induction rule: worker_step.induct)
    (auto simp: gives_up_def worker_ops pipe Let_def split: resume.splits if_splits)

lemma quiet_step: "pipeline_step cfg p p' \<Longrightarrow> worker p' = worker p \<or> \<not> at_store (worker p) \<Longrightarrow> gives_up p p'"
proof (induction rule: pipeline_step.induct)
  case (work s s')
  then show ?case by (rule quiet_worker_step)
qed (auto simp: gives_up_def client_ops pipe enqueuer_step_fields)

section \<open>Rows and fates\<close>

definition lettered :: "database \<Rightarrow> usage_tables \<Rightarrow> Event \<Rightarrow> bool" where
  "lettered D db e \<longleftrightarrow> (\<exists>l\<in>set (dead_letters db). uuid_in D (evID e) = Some (dl_id l))"

lemma fault_irrelevant [simp]: "recorded (D\<lparr>fault := f\<rparr>) = recorded D" "lettered (D\<lparr>fault := f\<rparr>) = lettered D"
  "usage_inv (D\<lparr>fault := f\<rparr>) = usage_inv D"
  by (simp_all add: fun_eq_iff recorded_def lettered_def usage_inv_def)

lemma lettered_ids: "lettered D db e \<longleftrightarrow> (\<exists>i\<in>dl_id ` set (dead_letters db). uuid_in D (evID e) = Some i)"
  by (auto simp: lettered_def)

lemma upsert_letters_ids: "dl_id ` set (fold upsert_letter new ls) = dl_id ` set ls \<union> dl_id ` set new"
  by (induction new arbitrary: ls) (auto simp: upsert_letter_ids)

lemma PersistUsageDeadLetters_letters:
  assumes "PersistUsageDeadLetters D es err n db = Inr db'"
  shows "usage_inv D db \<Longrightarrow> usage_inv D db'" and "usage_events db' = usage_events db"
    and "recorded D db e \<Longrightarrow> recorded D db' e" and "e \<in> set es \<or> lettered D db e \<Longrightarrow> lettered D db' e"
proof -
  obtain new where db': "db' = db\<lparr>dead_letters := fold upsert_letter new (dead_letters db)\<rparr>"
    and ids: "list_all2 (letter_of D err n) es new"
    using assms by (rule PersistUsageDeadLetters_Inr)
  show "usage_inv D db \<Longrightarrow> usage_inv D db'" "usage_events db' = usage_events db"
    "recorded D db e \<Longrightarrow> recorded D db' e"
    by (simp_all add: db' usage_inv_def recorded_def upsert_letters_distinct)
  show "e \<in> set es \<or> lettered D db e \<Longrightarrow> lettered D db' e"
    using ids by (fastforce simp: lettered_ids db' upsert_letters_ids letter_of_def list_all2_conv_all_nth in_set_conv_nth)
qed

lemma PersistUsage_letters:
  assumes "PersistUsage D es db = Inr db'"
  shows "lettered D db' = lettered D db" and "r \<in> set (usage_events db') \<Longrightarrow>
    r \<in> set (usage_events db) \<or> (\<exists>e\<in>set es. uuid_in D (evID e) = Some (ue_id r))"
proof -
  obtain rows where rows: "list_all2 (\<lambda>e r. incoming_row D e = Some r) es rows"
    and db': "db' = db\<lparr>usage_events := usage_events db @ inserted (ue_id ` set (usage_events db)) rows,
      usage_hourly := (\<lambda>key. add_hour (usage_hourly db key)
        (aggregate D (inserted (ue_id ` set (usage_events db)) rows) key))\<rparr>"
    using assms by (rule PersistUsage_Inr)
  show "lettered D db' = lettered D db" by (simp add: db' lettered_def fun_eq_iff)
  have "\<exists>e\<in>set es. uuid_in D (evID e) = Some (ue_id r)" if "ue_id r \<in> ue_id ` set rows"
    using list_all2_ids [OF rows] that by (fastforce simp: list_all2_conv_all_nth in_set_conv_nth)
  then show "r \<in> set (usage_events db') \<Longrightarrow>
      r \<in> set (usage_events db) \<or> (\<exists>e\<in>set es. uuid_in D (evID e) = Some (ue_id r))"
    using inserted_ids(1) [of "ue_id ` set (usage_events db)" rows] by (auto simp: db')
qed

section \<open>The store interface with dead letters\<close>

text \<open>
  What the worker relies on beyond \<open>usage_store\<close>: a dead letter is kept from its write on, and neither
  statement takes back what the other wrote.  A client that sees only effects of the two statements
  never sees a fate revoked.
\<close>

locale usage_sink = usage_store persist holds
  for persist :: "Event list \<Rightarrow> 'db \<Rightarrow> 'db result" and holds :: "'db \<Rightarrow> Event \<Rightarrow> bool" +
  fixes bury :: "Event list \<Rightarrow> 'db \<Rightarrow> 'db result"
    and keeps_letter :: "'db \<Rightarrow> Event \<Rightarrow> bool"
  assumes bury_letters: "bury es db = Inr db' \<Longrightarrow> e \<in> set es \<Longrightarrow> keeps_letter db' e"
    and bury_keeps: "bury es db = Inr db' \<Longrightarrow> keeps_letter db e \<Longrightarrow> keeps_letter db' e"
    and bury_keeps_records: "bury es db = Inr db' \<Longrightarrow> holds db e \<Longrightarrow> holds db' e"
    and persist_keeps_letters: "persist es db = Inr db' \<Longrightarrow> keeps_letter db e \<Longrightarrow> keeps_letter db' e"
begin

lemma effect_keeps:
  assumes "persist es db = Inr db' \<or> bury es db = Inr db'"
  shows "holds db e \<Longrightarrow> holds db' e" and "keeps_letter db e \<Longrightarrow> keeps_letter db' e"
  using assms by (auto intro: persist_keeps bury_keeps bury_keeps_records persist_keeps_letters)

end

interpretation usage_tables: usage_sink "PersistUsage (D\<lparr>fault := f\<rparr>)" "recorded D"
    "\<lambda>es. PersistUsageDeadLetters (D\<lparr>fault := f\<rparr>) es err n" "lettered D" for D f err n
proof (rule usage_sink.intro [OF _ usage_sink_axioms.intro])
  show "usage_store (PersistUsage (D\<lparr>fault := f\<rparr>)) (recorded D)"
    using usage_db.usage_store_axioms [of "D\<lparr>fault := f\<rparr>"] by simp
qed (use PersistUsageDeadLetters_letters(3,4) [of "D\<lparr>fault := f\<rparr>"] PersistUsage_letters(1) [of "D\<lparr>fault := f\<rparr>"] in auto)

section \<open>The invariant of the composed system\<close>

definition fate_holds :: "database \<Rightarrow> usage_tables \<Rightarrow> Event list \<times> fate \<Rightarrow> bool" where
  "fate_holds D db p \<longleftrightarrow> (\<forall>e\<in>set (fst p). (snd p = Stored \<longrightarrow> recorded D db e) \<and> (snd p = Dead \<longrightarrow> lettered D db e))
     \<and> (snd p = Stored \<longrightarrow> 10 * length (fst p) \<le> max_parameters)"

definition delivery_inv :: "database \<Rightarrow> delivery \<Rightarrow> bool" where
  "delivery_inv D s \<longleftrightarrow> usage_inv D (tables s) \<and> (\<forall>p\<in>set (settled (local_pipe s)). fate_holds D (tables s) p)
     \<and> (\<forall>r\<in>set (usage_events (tables s)).
          \<exists>e\<in>set (accepted (local_pipe s)) \<union> set (foreign s). uuid_in D (evID e) = Some (ue_id r))"

text \<open>The tables only grow: what was recorded or lettered stays so.\<close>

definition grows :: "database \<Rightarrow> usage_tables \<Rightarrow> usage_tables \<Rightarrow> Event set \<Rightarrow> bool" where
  "grows D db db' E \<longleftrightarrow> (usage_inv D db \<longrightarrow> usage_inv D db')
     \<and> (\<forall>e. recorded D db e \<longrightarrow> recorded D db' e) \<and> (\<forall>e. lettered D db e \<longrightarrow> lettered D db' e)
     \<and> (\<forall>r\<in>set (usage_events db'). r \<in> set (usage_events db) \<or> (\<exists>e\<in>E. uuid_in D (evID e) = Some (ue_id r)))"

lemma PersistUsage_grows: "PersistUsage (D\<lparr>fault := f\<rparr>) es db = Inr db' \<Longrightarrow> grows D db db' (set es)"
  using PersistUsage_inv [of "D\<lparr>fault := f\<rparr>"] PersistUsage_letters(2) [of "D\<lparr>fault := f\<rparr>"] usage_tables.effect_keeps
  by (fastforce simp: grows_def)

lemma PersistUsageDeadLetters_grows:
  "PersistUsageDeadLetters (D\<lparr>fault := f\<rparr>) es err n db = Inr db' \<Longrightarrow> grows D db db' (set es)"
  using PersistUsageDeadLetters_letters(1,2) [of "D\<lparr>fault := f\<rparr>"] usage_tables.effect_keeps
  by (fastforce simp: grows_def)

lemma fate_holds_grows: "grows D db db' E \<Longrightarrow> fate_holds D db p \<Longrightarrow> fate_holds D db' p"
  by (auto simp: grows_def fate_holds_def)

text \<open>One step: the tables grow by events accepted here or elsewhere, and every new fate holds.\<close>

lemma delivery_inv_step:
  assumes "delivery_inv D s" and "grows D (tables s) (tables s') E"
    and "E \<subseteq> set (accepted (local_pipe s')) \<union> set (foreign s')"
    and "set (accepted (local_pipe s)) \<subseteq> set (accepted (local_pipe s'))" and "set (foreign s) \<subseteq> set (foreign s')"
    and "\<forall>p\<in>set (settled (local_pipe s')). p \<in> set (settled (local_pipe s)) \<or> fate_holds D (tables s') p"
  shows "delivery_inv D s'"
proof -
  have "fate_holds D (tables s') p" if "p \<in> set (settled (local_pipe s'))" for p
    using assms(1,6) fate_holds_grows [OF assms(2)] that unfolding delivery_inv_def by blast
  moreover have "\<exists>e\<in>set (accepted (local_pipe s')) \<union> set (foreign s'). uuid_in D (evID e) = Some (ue_id r)"
    if "r \<in> set (usage_events (tables s'))" for r
    using assms(1-5) that unfolding delivery_inv_def grows_def by blast
  ultimately show ?thesis using assms(1,2) by (simp add: delivery_inv_def grows_def)
qed

lemma grows_refl: "grows D db db E"
  by (simp add: grows_def)

lemma in_hand_accepted: "reachable cfg p \<Longrightarrow> set (in_hand (worker p)) \<subseteq> set (accepted p)"
  using reachable_inv by (fastforce simp: pipeline_inv_def flow_inv_def)

text \<open>The worker's own batch: every way a call of the store can end.\<close>

lemma delivery_inv_batch:
  assumes "delivery_inv D s" and "reachable cfg (local_pipe s)" and "set batch \<subseteq> set (in_hand (worker (local_pipe s)))"
    and "grows D (tables s) db (set batch)" and "accepted p = accepted (local_pipe s)"
    and "\<forall>q\<in>set (settled p). q \<in> set (settled (local_pipe s)) \<or> fate_holds D db q"
  shows "delivery_inv D (s\<lparr>local_pipe := p, tables := db\<rparr>)"
proof (rule delivery_inv_step [OF assms(1), of _ "set batch"])
  show "set batch \<subseteq> set (accepted (local_pipe (s\<lparr>local_pipe := p, tables := db\<rparr>)))
      \<union> set (foreign (s\<lparr>local_pipe := p, tables := db\<rparr>))"
    using assms(3,5) in_hand_accepted [OF assms(2)] by auto
qed (use assms(4-6) in simp_all)

lemma store_step_inv:
  assumes "store_step cfg D s s'" and "reachable cfg (local_pipe s)" and "delivery_inv D s"
  shows "delivery_inv D s'"
  using assms
proof (induction rule: store_step.induct)
  case (persisted s attempt batch k f db)
  have "10 * length batch \<le> max_parameters" using persisted.hyps(2) by (rule PersistUsage_Inr)
  then have "fate_holds D db (batch, Stored)"
    using PersistUsage_records [OF persisted.hyps(2)] by (simp add: fate_holds_def)
  with persisted show ?case
    by (intro delivery_inv_batch [of D s cfg batch]) (simp_all add: PersistUsage_grows worker_ops pipe)
next
  case (unacknowledged s attempt batch k f db)
  then show ?case
    by (intro delivery_inv_batch [of D s cfg batch]) (simp_all add: PersistUsage_grows worker_ops pipe)
next
  case (rejected s attempt batch k f err)
  then show ?case
    using delivery_inv_batch [of D s cfg "[]" "tables s"] by (simp add: grows_refl worker_ops pipe)
next
  case (buried s batch k f lastErr db)
  have "fate_holds D db (batch, Dead)"
    using PersistUsageDeadLetters_letters(4) [OF buried.hyps(2)] by (simp add: fate_holds_def)
  with buried show ?case
    by (intro delivery_inv_batch [of D s cfg batch]) (simp_all add: PersistUsageDeadLetters_grows worker_ops pipe)
next
  case (burial_unacknowledged s batch k f lastErr db)
  then show ?case
    by (intro delivery_inv_batch [of D s cfg batch])
      (simp_all add: PersistUsageDeadLetters_grows worker_ops pipe fate_holds_def)
next
  case (burial_rejected s batch k f lastErr err)
  then show ?case
    using delivery_inv_batch [of D s cfg "[]" "tables s"] by (simp add: grows_refl worker_ops pipe fate_holds_def)
qed

lemma deliverable_inv: "deliverable cfg D s \<Longrightarrow> delivery_inv D s"
proof (induction rule: deliverable.induct)
  case (start p)
  then show ?case
    using empty_tables_inv [of D]
    by (auto simp: delivery_inv_def NewPipeline_def empty_pipeline_def emit_def split: option.splits) (simp add: empty_tables_def)
next
  case (step s s')
  note r = deliverable_reachable [OF step.hyps(1)]
  from step.hyps(2) show ?case
  proof cases
    case store
    then show ?thesis using store_step_inv r step.IH by blast
  next
    case (quiet p)
    have "gives_up (local_pipe s) p" using quiet_step [OF quiet(2,3)] .
    then have "\<forall>q\<in>set (settled p). q \<in> set (settled (local_pipe s)) \<or> fate_holds D (tables s) q"
      unfolding gives_up_def fate_holds_def by fastforce
    then show ?thesis
      unfolding quiet(1) by (intro delivery_inv_step [OF step.IH, of _ "{}"])
        (simp_all add: grows_refl accepted_step [OF quiet(2)])
  next
    case (elsewhere f batch db)
    show ?thesis
      unfolding elsewhere(1) by (rule delivery_inv_step [OF step.IH, of _ "set batch"])
        (auto simp: PersistUsage_grows [OF elsewhere(2)])
  next
    case (letters_elsewhere f batch lastErr attempts db)
    show ?thesis
      unfolding letters_elsewhere(1) by (rule delivery_inv_step [OF step.IH, of _ "set batch"])
        (auto simp: PersistUsageDeadLetters_grows [OF letters_elsewhere(2)])
  qed
qed

lemma settled_or_pending:
  assumes "deliverable cfg D s" and "e \<in> set (accepted (local_pipe s))"
  shows "recorded D (tables s) e \<or> lettered D (tables s) e \<or> (\<exists>b. (b, Lost) \<in> set (settled (local_pipe s)) \<and> e \<in> set b)
    \<or> e \<in> set (in_hand (worker (local_pipe s))) \<union> set (queue (local_pipe s))"
proof -
  have "accepted (local_pipe s) = concat (map fst (settled (local_pipe s))) @ in_hand (worker (local_pipe s)) @ queue (local_pipe s)"
    using reachable_inv [OF deliverable_reachable [OF assms(1)]] by (simp add: pipeline_inv_def flow_inv_def)
  then consider "e \<in> set (in_hand (worker (local_pipe s))) \<union> set (queue (local_pipe s))"
    | b f where "(b, f) \<in> set (settled (local_pipe s))" and "e \<in> set b"
    using assms(2) by auto
  then show ?thesis
  proof cases
    case 2
    then have "fate_holds D (tables s) (b, f)" using deliverable_inv [OF assms(1)] by (auto simp: delivery_inv_def)
    then show ?thesis using 2 by (cases f) (auto simp: fate_holds_def)
  qed simp
qed

lemma no_losses_reported:
  assumes "reachable cfg p" and "\<not> deadline_hit p" and "total fail_amount (calls p) = 0"
  shows "(b, Lost) \<notin> set (settled p)"
proof
  assume b: "(b, Lost) \<in> set (settled p)"
  have "total (fated Lost) (settled p) = 0" and "b \<noteq> []"
    using reachable_inv [OF assms(1)] assms(2,3) b by (auto simp: pipeline_inv_def count_inv_def bound_inv_def)
  moreover have pos: "0 \<le> total (fated Lost) ps" for ps by (induction ps) (auto simp: fated_def)
  have "fated Lost q \<le> total (fated Lost) ps" if "q \<in> set ps" for q ps
    using that by (induction ps) (use pos in \<open>auto simp: fated_def add_increasing add_increasing2\<close>)
  ultimately show False using b by (fastforce simp: fated_def)
qed

section \<open>Properties\<close>

text \<open>
  C5. Usage end to end: in every state the gateway and the database can reach together, with retries,
  acknowledgements that are lost and other instances writing the same tables, every accepted event is
  recorded, or kept as a dead letter, or in a batch that was reported lost, or still on its way.  No row
  stands for an event that was not accepted by some instance, no event is recorded twice, and the hourly
  rows are exactly the aggregates of the recorded events.
\<close>

theorem usage_delivered_or_accounted:
  assumes "deliverable cfg D s"
  shows "(\<forall>e\<in>set (accepted (local_pipe s)). recorded D (tables s) e \<or> lettered D (tables s) e
        \<or> (\<exists>b. (b, Lost) \<in> set (settled (local_pipe s)) \<and> e \<in> set b)
        \<or> e \<in> set (in_hand (worker (local_pipe s))) \<union> set (queue (local_pipe s)))
    \<and> (\<forall>r\<in>set (usage_events (tables s)).
        \<exists>e\<in>set (accepted (local_pipe s)) \<union> set (foreign s). uuid_in D (evID e) = Some (ue_id r))
    \<and> distinct (map ue_id (usage_events (tables s)))
    \<and> usage_hourly (tables s) = aggregate D (usage_events (tables s))"
  using settled_or_pending [OF assms] deliverable_inv [OF assms] unfolding delivery_inv_def usage_inv_def by blast

text \<open>
  A clean shutdown delivers everything: once the worker has returned without its deadline having
  expired and without a failed dead-letter write, every event the gateway ever accepted is in the
  database, recorded or as a dead letter.
\<close>

theorem clean_shutdown_delivers:
  assumes "deliverable cfg D s" and "worker (local_pipe s) = Stopped" and "\<not> deadline_hit (local_pipe s)"
    and "total fail_amount (calls (local_pipe s)) = 0" and "e \<in> set (accepted (local_pipe s))"
  shows "recorded D (tables s) e \<or> lettered D (tables s) e"
proof -
  note r = deliverable_reachable [OF assms(1)]
  have "queue (local_pipe s) = []"
    using reachable_inv [OF r] assms(2,3) by (auto simp: pipeline_inv_def lock_inv_def)
  then show ?thesis
    using settled_or_pending [OF assms(1,5)] no_losses_reported [OF r assms(3,4)] assms(2) by auto
qed

text \<open>The run of the pipeline's witnesses, with its batch stored in the sample database.\<close>

lemma deliverable_quiet:
  assumes "deliverable cfg D \<lparr>local_pipe = p, tables = db, foreign = es\<rparr>" and "pipeline_step cfg p p'"
    and "worker p' = worker p \<or> \<not> at_store (worker p)"
  shows "deliverable cfg D \<lparr>local_pipe = p', tables = db, foreign = es\<rparr>"
  using deliverable.step [OF assms(1) delivery_step.quiet, of p'] assms(2,3) by simp

lemma sample_event_persisted:
  "\<exists>db. PersistUsage (sample_database\<lparr>fault := None\<rparr>) [sample_event] empty_tables = Inr db"
proof -
  obtain row where row: "incoming_row sample_database sample_event = Some row" "ue_duration row = 1500" "ue_bytes row = 2"
    by (simp add: incoming_row_def sample_database_def sample_event_def)
  have "first_invalid [sample_event] = None" by (simp add: first_invalid_None valid_sample_event)
  moreover have "upsert_hours (sample_database\<lparr>fault := None\<rparr>) [row] (\<lambda>key. None) \<noteq> None"
    using row(2,3) by (simp add: upsert_hours_def aggregate_def hour_key_def hour_fits_def in_int64_def)
  ultimately show ?thesis
    using row(1) by (auto simp: PersistUsage_def max_parameters_def empty_tables_def Let_def simp del: first_invalid.simps)
qed

lemma deliverable_sample_done:
  assumes "PersistUsage (sample_database\<lparr>fault := None\<rparr>) [sample_event] empty_tables = Inr db"
  shows "deliverable sample_config sample_database \<lparr>local_pipe = sample_done, tables = db, foreign = []\<rparr>"
proof -
  let ?R = "\<lambda>p. deliverable sample_config sample_database \<lparr>local_pipe = p, tables = empty_tables, foreign = []\<rparr>"
  have "?R sample_open"
    by (rule deliverable.start) (simp add: NewPipeline_def check_config_def sample_config_def sample_open_def)
  then have "?R (sample_at [] True (Persisting 1 [sample_event] Exit) [DepthSet 0] [])"
    by (rule sample_run(2) [of ?R]) (rule deliverable_quiet)
  from deliverable.step [OF this delivery_step.store [OF store_step.persisted]] assms
  show ?thesis unfolding sample_stored [symmetric] by (simp add: sample_at_def)
qed

theorem usage_delivered_or_accounted_witness:
  "\<exists>s. deliverable sample_config sample_database s \<and> accepted (local_pipe s) = [sample_event]
     \<and> usage_hourly (tables s) = aggregate sample_database (usage_events (tables s))"
proof -
  obtain db where "PersistUsage (sample_database\<lparr>fault := None\<rparr>) [sample_event] empty_tables = Inr db"
    using sample_event_persisted by blast
  note s = deliverable_sample_done [OF this]
  have "accepted (local_pipe \<lparr>local_pipe = sample_done, tables = db, foreign = []\<rparr>) = [sample_event]"
    by (simp add: sample_done_fields)
  with usage_delivered_or_accounted [OF s] s show ?thesis by blast
qed

theorem clean_shutdown_delivers_witness:
  "\<exists>s :: delivery. worker (local_pipe s) = Stopped \<and> (recorded sample_database (tables s) sample_event \<or> lettered sample_database (tables s) sample_event)"
proof -
  obtain db where "PersistUsage (sample_database\<lparr>fault := None\<rparr>) [sample_event] empty_tables = Inr db"
    using sample_event_persisted by blast
  from clean_shutdown_delivers [OF deliverable_sample_done [OF this], of sample_event]
  have "recorded sample_database db sample_event \<or> lettered sample_database db sample_event"
    by (simp add: sample_done_fields) (simp add: sample_done_def sample_at_def)
  then show ?thesis
    by (intro exI [of _ "\<lparr>local_pipe = sample_done, tables = db, foreign = []\<rparr>"]) (simp add: sample_done_fields)
qed

end
