(* ===== verification/Gateway_Main.thy ===== *)
theory Gateway_Main
  imports Gateway_Handler Usage_Delivery
begin

text \<open>
  \<open>cmd/gateway/main.go\<close>: the start of the gateway out of the other components, and its shutdown, with
  \<open>store.Open\<close> and \<open>Postgres.Ping\<close> (\<open>internal/store/postgres.go\<close>).  The process is a state
  machine: it serves, drains its HTTP server after a signal, closes the usage pipeline and exits, while
  the pipeline and the database of \<open>Usage_Delivery\<close> go on; \<open>os.Exit\<close> ends all of it at once.  The
  connection pool, Redis, the URL parser and the upstream services are arguments.
\<close>

section \<open>The database connection\<close>

record pool_config =
  ConnString :: gostring
  MinConns :: int
  MaxConns :: int

record pgxpool =
  ParseConfig :: "gostring \<Rightarrow> pool_config result"
  NewWithConfig :: "pool_config \<Rightarrow> unit result"
  pool_Ping :: "unit result"

definition Open :: "pgxpool \<Rightarrow> gostring \<Rightarrow> pool_config result" where
  "Open P databaseURL =
     (case ParseConfig P databaseURL of
        Inl err \<Rightarrow> Inl (''parse database URL: '' @ err)
      | Inr config0 \<Rightarrow>
          let config = config0\<lparr>MinConns := 1, MaxConns := 10\<rparr> in
          case NewWithConfig P config of
            Inl err \<Rightarrow> Inl (''create PostgreSQL pool: '' @ err)
          | Inr u \<Rightarrow>
              (case pool_Ping P of Inl err \<Rightarrow> Inl (''ping PostgreSQL: '' @ err) | Inr v \<Rightarrow> Inr config))"

definition Postgres_Ping :: "pgxpool \<Rightarrow> unit result" where
  "Postgres_Ping P = pool_Ping P"

section \<open>Start\<close>

text \<open>What the process finds around it, at the moment of a request.\<close>

record machine =
  mc_getenv :: environment
  mc_pool :: pgxpool
  mc_lookup :: lookup
  mc_script :: "gostring \<Rightarrow> argv \<Rightarrow> int list result"
  mc_redis_ping :: "unit result"
  mc_now :: int
  mc_parse_url :: "gostring \<Rightarrow> target_url result"
  mc_upstream :: upstream

definition usage_config :: "Config \<Rightarrow> PipelineConfig" where
  "usage_config cfg = \<lparr>QueueCapacity = UsageQueueCapacity cfg, BatchSize = UsageBatchSize cfg,
     FlushInterval = UsageFlushInterval cfg, MaxAttempts = UsageMaxAttempts cfg,
     RetryBaseDelay = UsageRetryBaseDelay cfg\<rparr>"

definition readiness :: "machine \<Rightarrow> RedisLimiter \<Rightarrow> HealthCheck list" where
  "readiness m redis =
     [\<lparr>hc_name = ''Redis'', hc_ping = RedisLimiter_Ping (\<lambda>_. mc_redis_ping m) redis\<rparr>,
      \<lparr>hc_name = ''PostgreSQL'', hc_ping = Postgres_Ping (mc_pool m)\<rparr>]"

record http_server =
  Addr :: gostring
  ReadHeaderTimeout :: duration
  ReadTimeout :: duration
  WriteTimeout :: duration
  IdleTimeout :: duration

definition gateway_server :: "Config \<Rightarrow> http_server" where
  "gateway_server cfg = \<lparr>Addr = ListenAddr cfg, ReadHeaderTimeout = 5 * time_Second, ReadTimeout = 15 * time_Second,
     WriteTimeout = 30 * time_Second, IdleTimeout = 60 * time_Second\<rparr>"

record gateway =
  gw_config :: Config
  gw_handler :: handler
  gw_shared :: shared
  gw_server :: http_server

text \<open>The message before \<open>os.Exit(1)\<close>, with the pipeline where it was built and closed again.\<close>

datatype startup = Failed gostring "Pipeline option" | Started gateway

definition pepper_warning :: "Config \<Rightarrow> gostring list" where
  "pepper_warning cfg =
     (if APIKeyPepper cfg = ''dev-only-pepper-change-me''
      then [''using development API key pepper; replace it before deployment''] else [])"

text \<open>\<open>main\<close> up to the listener.\<close>

definition gateway_start :: "machine \<Rightarrow> gostring list \<times> startup" where
  "gateway_start m =
     (case Load (mc_getenv m) of Inl err \<Rightarrow> ([], Failed ''invalid configuration'' None) | Inr cfg \<Rightarrow>
      (pepper_warning cfg,
       case Open (mc_pool m) (DatabaseURL cfg) of Inl err \<Rightarrow> Failed ''connect to PostgreSQL'' None | Inr pool \<Rightarrow>
       case NewService (Some (mc_lookup m)) (APIKeyPepper cfg) of Inl err \<Rightarrow> Failed ''build authentication service'' None | Inr svc \<Rightarrow>
       let redis = NewRedisLimiter True (RateLimitPrefix cfg); registry = NewRegistry in
       case NewPipeline True (usage_config cfg) of Inl err \<Rightarrow> Failed ''build usage pipeline'' None | Inr pl \<Rightarrow>
       case NewHandler (mc_parse_url m) (mc_upstream m)
           \<lparr>deps_Config = cfg, deps_Limiter = Some (Allow (mc_script m) (mc_now m) redis),
            deps_Auth = Some (Authenticate svc), deps_Readiness = readiness m redis,
            deps_Metrics = Some registry, deps_Usage = Some pl\<rparr> of
         Inl err \<Rightarrow> Failed ''build gateway handler'' (Some (Close_admission pl))
       | Inr (h, g) \<Rightarrow> Started \<lparr>gw_config = cfg, gw_handler = h, gw_shared = g, gw_server = gateway_server cfg\<rparr>))"

section \<open>Shutdown\<close>

datatype phase = Serving | Draining | Closing | Exited int

text \<open>
  One step of the process: the pipeline and the database (admission closes only in \<open>Close\<close>), the
  listener's failure, the signal, the two outcomes of \<open>server.Shutdown\<close> and of \<open>usagePipeline.Close\<close>.
\<close>

inductive main_step :: "PipelineConfig \<Rightarrow> database \<Rightarrow> phase \<times> delivery \<Rightarrow> phase \<times> delivery \<Rightarrow> bool" for cfg D where
  running: "delivery_step cfg D d d' \<Longrightarrow> \<forall>code. ph \<noteq> Exited code \<Longrightarrow>
    ph = Closing \<or> closed (local_pipe d') = closed (local_pipe d) \<Longrightarrow> main_step cfg D (ph, d) (ph, d')"
| listener_failed: "main_step cfg D (Serving, d) (Exited 1, d)"
| signal: "main_step cfg D (Serving, d) (Draining, d)"
| drain_failed: "main_step cfg D (Draining, d) (Exited 1, d)"
| drained: "main_step cfg D (Draining, d) (Closing, d)"
| flush_failed: "worker (local_pipe d) = Stopped \<Longrightarrow> deadline_hit (local_pipe d) \<Longrightarrow>
    main_step cfg D (Closing, d) (Exited 1, d)"
| flushed: "worker (local_pipe d) = Stopped \<Longrightarrow> \<not> deadline_hit (local_pipe d) \<Longrightarrow>
    main_step cfg D (Closing, d) (Exited 0, d)"

inductive main_reachable :: "PipelineConfig \<Rightarrow> database \<Rightarrow> phase \<times> delivery \<Rightarrow> bool" for cfg D where
  start: "NewPipeline True cfg = Inr p \<Longrightarrow>
    main_reachable cfg D (Serving, \<lparr>local_pipe = p, tables = empty_tables, foreign = []\<rparr>)"
| step: "main_reachable cfg D s \<Longrightarrow> main_step cfg D s s' \<Longrightarrow> main_reachable cfg D s'"

text \<open>After \<open>os.Exit\<close> nothing happens.\<close>

inductive_simps exited_step: "main_step cfg D (Exited code, d) s"

lemma exited_final: "\<not> main_step cfg D (Exited code, d) s"
  by (simp add: exited_step)

lemma main_reachable_deliverable: "main_reachable cfg D s \<Longrightarrow> deliverable cfg D (snd s)"
proof (induction rule: main_reachable.induct)
  case (step s s')
  from step.hyps(2) step.IH show ?case by cases (auto intro: deliverable.step)
qed (simp add: deliverable.start)

text \<open>An exit with status zero comes from a pipeline that was drained before its deadline.\<close>

lemma main_exit_zero:
  "main_reachable cfg D s \<Longrightarrow> fst s = Exited 0 \<Longrightarrow> worker (local_pipe (snd s)) = Stopped \<and> \<not> deadline_hit (local_pipe (snd s))"
proof (induction rule: main_reachable.induct)
  case (step s s')
  from step.hyps(2) step.prems show ?case by cases auto
qed simp

section \<open>Facts on the start\<close>

lemma Load_valid: "Load getenv = Inr cfg \<Longrightarrow> validate_config cfg = None"
  by (auto simp: Load_def Let_def split: sum.splits option.splits)

lemma loaded_parts_accepted:
  assumes "Load getenv = Inr cfg"
  shows "16 \<le> length (APIKeyPepper cfg)" and "valid_config (usage_config cfg)"
  using Load_valid [OF assms] by (auto simp: validate_config_def valid_config_iff usage_config_def split: if_splits)

definition absolute_target :: "(gostring \<Rightarrow> target_url result) \<Rightarrow> gostring \<Rightarrow> target_url \<Rightarrow> bool" where
  "absolute_target parse raw t \<longleftrightarrow> parse raw = Inr t \<and> tg_scheme t \<noteq> [] \<and> tg_host t \<noteq> []"

lemma check_target_Inr: "check_target parse name raw = Inr t \<longleftrightarrow> absolute_target parse raw t"
  by (auto simp: check_target_def absolute_target_def split: sum.splits)

lemma NewHandler_Inr:
  "NewHandler parse ups deps = Inr (h, g) \<longleftrightarrow>
     (\<exists>user orders. absolute_target parse (UserServiceURL (deps_Config deps)) user
        \<and> absolute_target parse (OrderServiceURL (deps_Config deps)) orders
        \<and> h = \<lparr>h_cfg = deps_Config deps, h_limiter = deps_Limiter deps, h_auth = deps_Auth deps,
               h_readiness = deps_Readiness deps, h_upstream = ups, h_user = user, h_order = orders\<rparr>
        \<and> g = \<lparr>sh_metrics = (case deps_Metrics deps of None \<Rightarrow> NewRegistry | Some r \<Rightarrow> r), sh_usage = deps_Usage deps\<rparr>)"
  unfolding NewHandler_def Let_def
    check_target_Inr [of parse "''USER_SERVICE_URL''" "UserServiceURL (deps_Config deps)", symmetric]
    check_target_Inr [of parse "''ORDER_SERVICE_URL''" "OrderServiceURL (deps_Config deps)", symmetric]
  by (auto split: sum.splits)

text \<open>The start after the configuration and the database: nothing else can fail.\<close>

definition started_gateway :: "machine \<Rightarrow> Config \<Rightarrow> target_url \<Rightarrow> target_url \<Rightarrow> gateway" where
  "started_gateway m cfg user orders =
     (let redis = NewRedisLimiter True (RateLimitPrefix cfg) in
      \<lparr>gw_config = cfg,
       gw_handler = \<lparr>h_cfg = cfg, h_limiter = Some (Allow (mc_script m) (mc_now m) redis),
         h_auth = Some (Authenticate \<lparr>svc_store = mc_lookup m, svc_pepper = APIKeyPepper cfg\<rparr>),
         h_readiness = readiness m redis, h_upstream = mc_upstream m, h_user = user, h_order = orders\<rparr>,
       gw_shared = \<lparr>sh_metrics = NewRegistry,
         sh_usage = Some (emit [CapacitySet (UsageQueueCapacity cfg)] empty_pipeline)\<rparr>,
       gw_server = gateway_server cfg\<rparr>)"

lemma gateway_start_Started:
  "snd (gateway_start m) = Started gw \<longleftrightarrow>
     (\<exists>cfg pool user orders. Load (mc_getenv m) = Inr cfg \<and> Open (mc_pool m) (DatabaseURL cfg) = Inr pool
        \<and> absolute_target (mc_parse_url m) (UserServiceURL cfg) user
        \<and> absolute_target (mc_parse_url m) (OrderServiceURL cfg) orders
        \<and> gw = started_gateway m cfg user orders)"
proof (cases "Load (mc_getenv m)")
  case (Inr cfg)
  have svc: "NewService (Some (mc_lookup m)) (APIKeyPepper cfg)
      = Inr \<lparr>svc_store = mc_lookup m, svc_pepper = APIKeyPepper cfg\<rparr>"
    using loaded_parts_accepted(1) [OF Inr] by (simp add: NewService_def)
  have pl: "NewPipeline True (usage_config cfg) = Inr (emit [CapacitySet (UsageQueueCapacity cfg)] empty_pipeline)"
    using loaded_parts_accepted(2) [OF Inr] by (simp add: valid_config_def NewPipeline_def) (simp add: usage_config_def)
  let ?redis = "NewRedisLimiter True (RateLimitPrefix cfg)"
  let ?deps = "\<lparr>deps_Config = cfg, deps_Limiter = Some (Allow (mc_script m) (mc_now m) ?redis),
    deps_Auth = Some (Authenticate \<lparr>svc_store = mc_lookup m, svc_pepper = APIKeyPepper cfg\<rparr>),
    deps_Readiness = readiness m ?redis, deps_Metrics = Some NewRegistry,
    deps_Usage = Some (emit [CapacitySet (UsageQueueCapacity cfg)] empty_pipeline)\<rparr>"
  have "snd (gateway_start m) = Started gw \<longleftrightarrow>
      (\<exists>pool h g. Open (mc_pool m) (DatabaseURL cfg) = Inr pool \<and> NewHandler (mc_parse_url m) (mc_upstream m) ?deps = Inr (h, g)
        \<and> gw = \<lparr>gw_config = cfg, gw_handler = h, gw_shared = g, gw_server = gateway_server cfg\<rparr>)"
    by (auto simp: gateway_start_def Inr svc pl Let_def split: sum.splits prod.splits)
  then show ?thesis unfolding NewHandler_Inr started_gateway_def Let_def by (simp add: Inr) blast
qed (simp add: gateway_start_def)

section \<open>Properties\<close>


definition sample_machine :: machine where
  "sample_machine = \<lparr>mc_getenv = (\<lambda>name. []),
     mc_pool = \<lparr>ParseConfig = (\<lambda>url. Inr \<lparr>ConnString = url, MinConns = 0, MaxConns = 4\<rparr>), NewWithConfig = (\<lambda>c. Inr ()),
       pool_Ping = Inr ()\<rparr>,
     mc_lookup = (\<lambda>d route. if route = ''/api/users'' then Inr sample_principal else Inl ErrInvalidKey),
     mc_script = (\<lambda>key a. Inr [1, 9000000, 0, 200]), mc_redis_ping = Inr (), mc_now = 0,
     mc_parse_url = (\<lambda>raw. Inr sample_target), mc_upstream = (\<lambda>service target r. Unreachable ''down'')\<rparr>"

lemma sample_machine_starts: "\<exists>cfg. Load (mc_getenv sample_machine) = Inr cfg
  \<and> snd (gateway_start sample_machine) = Started (started_gateway sample_machine cfg sample_target sample_target)"
proof -
  obtain cfg where cfg: "Load (mc_getenv sample_machine) = Inr cfg"
    using load_defaults by (auto simp: sample_machine_def)
  moreover have "Open (mc_pool sample_machine) (DatabaseURL cfg) = Inr \<lparr>ConnString = DatabaseURL cfg, MinConns = 1, MaxConns = 10\<rparr>"
    by (simp add: Open_def sample_machine_def)
  moreover have "absolute_target (mc_parse_url sample_machine) raw sample_target" for raw
    by (simp add: absolute_target_def sample_machine_def sample_target_def)
  ultimately show ?thesis unfolding gateway_start_Started by blast
qed


text \<open>
  C16. A malformed policy is no way around the limiter: over any directory within the schema's constraints,
  which every administrative statement keeps, the limiter answers a request of an authenticated key with a decision whenever the script
  does, so \<open>RATE_LIMIT_FAIL_OPEN\<close> lets requests through only while Redis itself fails.
\<close>

theorem limiter_fails_only_with_redis:
  assumes "snd (gateway_start m) = Started gw" and "directory_inv db"
    and "mc_lookup m = LookupActiveKey err db"
    and "authenticated (gw_handler gw) key path = Some p" and "KeyID p \<noteq> []"
    and "mc_script m (bucket_key (RateLimitPrefix (gw_config gw)) (limit_request p path)) (policy_argv (limit_request p path)) = Inr result"
    and "length result = 4"
  shows "valid_policy (limit_request p path)
    \<and> (\<exists>allow d. h_limiter (gw_handler gw) = Some allow \<and> allow (limit_request p path) = Inr d
          \<and> Allowed d = (result ! 0 = 1) \<and> Limit d = BurstCapacity p)"
proof -
  obtain cfg user orders where gw: "gw = started_gateway m cfg user orders"
    using assms(1) unfolding gateway_start_Started by blast
  obtain d where "LookupActiveKey err db d (routeKey path) = Inr p"
    using assms(3,4) by (auto simp: gw started_gateway_def Let_def authenticated_def Authenticate_def split: sum.splits if_splits)
  then obtain row where "row \<in> set (joined_keys db d)" "p = principal_of db (routeKey path) row"
    by (rule LookupActiveKey_Inr)
  then have "quota_ok (RatePerSecond p) (BurstCapacity p)"
    using principal_quota_ok [OF assms(2)] by blast
  then have policy: "valid_policy (limit_request p path)"
    using assms(5) routeKey_slash [of path] by (auto simp: valid_policy_def limit_request_def quota_ok_def HasPrefix_def)
  moreover have "Allow (mc_script m) (mc_now m) (NewRedisLimiter True (RateLimitPrefix cfg)) (limit_request p path) =
      Inr \<lparr>Allowed = (result ! 0 = 1), Limit = BurstCapacity p, Remaining = result ! 1 sdiv microToken,
        ResetAt = mc_now m + wrap64 (result ! 3 * time_Millisecond), RetryAfter = wrap64 (result ! 2 * time_Millisecond)\<rparr>"
    using Allow_valid [OF policy, of "NewRedisLimiter True (RateLimitPrefix cfg)" "mc_script m" result "mc_now m"] assms(6,7)
    by (simp add: NewRedisLimiter_def gw started_gateway_def Let_def limit_request_def)
  ultimately show ?thesis by (simp add: gw started_gateway_def Let_def)
qed

definition sample_lookup_directory :: directory where
  "sample_lookup_directory =
     sample_directory\<lparr>api_keys := [sample_key\<lparr>key_hash := Digest ''dev-only-pepper-change-me'' ''k''\<rparr>]\<rparr>"

theorem limiter_fails_only_with_redis_witness:
  "\<exists>gw p. snd (gateway_start (sample_machine\<lparr>mc_lookup := LookupActiveKey None sample_lookup_directory\<rparr>)) = Started gw
     \<and> authenticated (gw_handler gw) ''k'' ''/api/users/7'' = Some p \<and> valid_policy (limit_request p ''/api/users/7'')"
proof -
  let ?m = "sample_machine\<lparr>mc_lookup := LookupActiveKey None sample_lookup_directory\<rparr>"
  obtain cfg where cfg: "Load (mc_getenv ?m) = Inr cfg" "APIKeyPepper cfg = ''dev-only-pepper-change-me''"
    using load_defaults by (simp add: sample_machine_def)
  define gw where "gw = started_gateway ?m cfg sample_target sample_target"
  have start: "snd (gateway_start ?m) = Started gw"
    unfolding gateway_start_Started gw_def
    using cfg(1) by (auto simp: Open_def absolute_target_def sample_machine_def sample_target_def)
  have inv: "directory_inv sample_lookup_directory"
    using sample_directory_inv by (simp add: directory_inv_defs sample_lookup_directory_def sample_directory_defs)
  have "TrimSpace ''k'' = ''k''" by (simp add: TrimSpace_graphic graphic_def)
  moreover have "joined_keys sample_lookup_directory (Digest ''dev-only-pepper-change-me'' ''k'') \<noteq> []"
    by (simp add: joined_keys_def key_rows_def sample_lookup_directory_def sample_directory_defs)
  ultimately obtain p where p: "authenticated (gw_handler gw) ''k'' ''/api/users/7'' = Some p"
    and row: "p = principal_of sample_lookup_directory (routeKey ''/api/users/7'')
      (hd (joined_keys sample_lookup_directory (Digest ''dev-only-pepper-change-me'' ''k'')))"
    by (auto simp: gw_def started_gateway_def Let_def authenticated_def Authenticate_def cfg(2) LookupActiveKey_def neq_Nil_conv)
  have "KeyID p \<noteq> []"
    unfolding row by (simp add: joined_keys_def key_rows_def sample_lookup_directory_def sample_directory_defs principal_of_def Let_def)
  with limiter_fails_only_with_redis [OF start inv _ p, of None "[1, 9000000, 0, 200]"] start p show ?thesis
    by (auto simp: sample_machine_def)
qed

text \<open>
  C7. An exit with status zero is a promise kept: every event the process ever accepted is in the
  database, recorded or as a dead letter, except those of batches whose dead-letter write failed, and
  each of these was reported as such.
\<close>

theorem exit_zero_delivers:
  assumes "main_reachable cfg D (Exited 0, d)" and "e \<in> set (accepted (local_pipe d))"
  shows "(recorded D (tables d) e \<or> lettered D (tables d) e \<or> (\<exists>b. (b, Lost) \<in> set (settled (local_pipe d)) \<and> e \<in> set b))
    \<and> total (fated Lost) (settled (local_pipe d)) = total fail_amount (calls (local_pipe d))"
proof -
  note d = main_reachable_deliverable [OF assms(1), unfolded snd_conv] and inv = reachable_inv [OF deliverable_reachable [OF d]]
  have stop: "worker (local_pipe d) = Stopped" "\<not> deadline_hit (local_pipe d)"
    using main_exit_zero [OF assms(1)] by simp_all
  then have "queue (local_pipe d) = []" using inv by (auto simp: pipeline_inv_def lock_inv_def)
  moreover have "total (fated Lost) (settled (local_pipe d)) = total fail_amount (calls (local_pipe d))"
    using inv stop(2) by (simp add: pipeline_inv_def count_inv_def)
  ultimately show ?thesis using settled_or_pending [OF d assms(2)] stop(1) by auto
qed

lemma main_running:
  assumes "main_reachable cfg D (ph, d)" and "delivery_step cfg D d d'" and "\<forall>code. ph \<noteq> Exited code"
    and "ph = Closing \<or> closed (local_pipe d') = closed (local_pipe d)"
  shows "main_reachable cfg D (ph, d')"
  by (rule main_reachable.step [OF assms(1) main_step.running [OF assms(2-4)]])

lemma main_serving_enqueue:
  assumes "main_reachable cfg D (Serving, \<lparr>local_pipe = p, tables = db, foreign = es\<rparr>)"
  shows "main_reachable cfg D (Serving, \<lparr>local_pipe = snd (Enqueue cfg e p), tables = db, foreign = es\<rparr>)"
  using Enqueue_client_steps [of cfg p e] assms
proof (induction rule: rtranclp_induct)
  case (step p p')
  then show ?case
    using main_running [OF _ delivery_step.quiet, of cfg D Serving "\<lparr>local_pipe = p, tables = db, foreign = es\<rparr>" p'] by simp
qed

lemma main_sample_start:
  "main_reachable sample_config D (Serving, \<lparr>local_pipe = sample_open, tables = empty_tables, foreign = []\<rparr>)"
  by (rule main_reachable.start) (simp add: NewPipeline_def check_config_def sample_config_def sample_open_def)

lemma main_sample_exit:
  assumes "PersistUsage (sample_database\<lparr>fault := None\<rparr>) [sample_event] empty_tables = Inr db"
  shows "main_reachable sample_config sample_database (Exited 0, \<lparr>local_pipe = sample_done, tables = db, foreign = []\<rparr>)"
proof -
  let ?M = "main_reachable sample_config sample_database"
  let ?P = "\<lambda>p. ?M (Closing, \<lparr>local_pipe = p, tables = empty_tables, foreign = []\<rparr>)"
  have "?P sample_open"
    by (intro main_reachable.step [OF main_reachable.step [OF main_sample_start main_step.signal] main_step.drained])
  then have "?P (sample_at [] True (Persisting 1 [sample_event] Exit) [DepthSet 0] [])"
  proof (rule sample_run(2) [of ?P])
    fix p p'
    assume "?P p" and "pipeline_step sample_config p p'" and "worker p' = worker p \<or> \<not> at_store (worker p)"
    then show "?P p'"
      using main_running [OF _ delivery_step.quiet, of sample_config sample_database Closing
        "\<lparr>local_pipe = p, tables = empty_tables, foreign = []\<rparr>" p'] by simp
  qed
  from main_running [OF this delivery_step.store [OF store_step.persisted]] assms
  have "?M (Closing, \<lparr>local_pipe = sample_done, tables = db, foreign = []\<rparr>)"
    unfolding sample_stored [symmetric] by (simp add: sample_at_def)
  then show ?thesis by (rule main_reachable.step [OF _ main_step.flushed]) (simp_all add: sample_done_def sample_at_def)
qed

theorem exit_zero_delivers_witness:
  "\<exists>d. main_reachable sample_config sample_database (Exited 0, d)
     \<and> (recorded sample_database (tables d) sample_event \<or> lettered sample_database (tables d) sample_event)"
proof -
  obtain db where "PersistUsage (sample_database\<lparr>fault := None\<rparr>) [sample_event] empty_tables = Inr db"
    using sample_event_persisted by blast
  note d = main_sample_exit [OF this]
  from exit_zero_delivers [OF d, of sample_event] d show ?thesis
    by (auto simp: sample_done_fields) (auto simp: sample_done_def sample_at_def)
qed


text \<open>
  C38. The configuration admits batches the store cannot take: \<open>Load\<close> accepts any batch size up to the queue
  capacity, but no batch of more than 6553 events is ever stored, for its parameters do not fit the wire
  protocol; such batches end as dead letters or lost.
\<close>

theorem oversized_batches_never_stored:
  "(\<exists>getenv cfg. Load getenv = Inr cfg \<and> BatchSize (usage_config cfg) = 7000)
   \<and> (\<forall>cfg D s b. deliverable cfg D s \<longrightarrow> (b, Stored) \<in> set (settled (local_pipe s)) \<longrightarrow> length b \<le> 6553)"
proof (intro conjI allI impI)
  let ?g = "\<lambda>name. if name \<in> {''USAGE_BATCH_SIZE'', ''USAGE_QUEUE_CAPACITY''} then Itoa 7000 else []"
  have "envInt ?g ''USAGE_BATCH_SIZE'' 100 = Inr 7000" "envInt ?g ''USAGE_QUEUE_CAPACITY'' 1024 = Inr 7000"
    by (simp_all add: envInt_def TrimSpace_Itoa Atoi_Itoa in_int64_def)
  then have "\<exists>cfg. Load ?g = Inr cfg \<and> UsageBatchSize cfg = 7000"
    by (simp add: Load_def assign_def initial_config_def env_def envDuration_def)
      (simp add: envInt_def validate_config_def)
  then show "\<exists>getenv cfg. Load getenv = Inr cfg \<and> BatchSize (usage_config cfg) = 7000"
    by (auto simp: usage_config_def)
next
  fix cfg D s b
  assume "deliverable cfg D s" and "(b, Stored) \<in> set (settled (local_pipe s))"
  then have "fate_holds D (tables s) (b, Stored)" using deliverable_inv by (auto simp: delivery_inv_def)
  then show "length b \<le> 6553" by (simp add: fate_holds_def max_parameters_def)
qed

theorem oversized_batches_never_stored_witness:
  "\<exists>s. deliverable sample_config sample_database s \<and> (\<exists>b. (b, Stored) \<in> set (settled (local_pipe s)) \<and> length b \<le> 6553)"
proof -
  obtain db where "PersistUsage (sample_database\<lparr>fault := None\<rparr>) [sample_event] empty_tables = Inr db"
    using sample_event_persisted by blast
  note s = deliverable_sample_done [OF this]
  moreover have "([sample_event], Stored) \<in> set (settled (local_pipe \<lparr>local_pipe = sample_done, tables = db, foreign = []\<rparr>))"
    by (simp add: sample_done_def sample_at_def)
  ultimately show ?thesis using oversized_batches_never_stored by blast
qed

end
