(* ===== verification/Mock_Service.thy ===== *)
theory Mock_Service
  imports Gateway_Handler "HOL-Library.List_Lexorder" "HOL-Library.Char_ord"
begin

text \<open>
  \<open>internal/mockservice/handler.go\<close>: the demonstration backends behind the gateway, with the JSON
  values they encode and the routing of \<open>http.ServeMux\<close> by method and path.  As in
  \<open>Gateway_Handler\<close>, request paths contain no percent-encoding and a path the mux redirects runs no
  handler.  The last section composes both programs: \<open>mock_upstream\<close> is the mock service as the
  gateway's proxy sees it, with the headers the server of \<open>net/http\<close> adds, and the property follows
  a request through the gate, the proxy and the service and back.
\<close>

section \<open>JSON values\<close>

datatype json = JString gostring | JNumber int | JArray "json list" | JObject "(gostring \<times> json) list"

fun comma_separated :: "string list \<Rightarrow> string" where
  "comma_separated [] = []"
| "comma_separated [s] = s"
| "comma_separated (s # ss) = s @ '','' @ comma_separated ss"

text \<open>A map is encoded with its keys in order.\<close>

fun json_text :: "json \<Rightarrow> string" where
  "json_text (JString s) = json_string s"
| "json_text (JNumber n) = Itoa n"
| "json_text (JArray vs) = ''['' @ comma_separated (map json_text vs) @ '']''"
| "json_text (JObject kvs) =
     ''{'' @ comma_separated (map (\<lambda>(k, t). json_string k @ '':'' @ t) (sort_key fst (map (\<lambda>(k, v). (k, json_text v)) kvs))) @ ''}''"

section \<open>The endpoints\<close>

definition mock_writeJSON :: "int \<Rightarrow> json \<Rightarrow> response \<Rightarrow> response" where
  "mock_writeJSON code payload w =
     snd (Write (json_text payload @ [CHR 0x0A])
       (snd (WriteHeader code (response_header (hset ''Content-Type'' ''application/json'') w))))"

definition listUsers :: "response \<Rightarrow> response" where
  "listUsers = mock_writeJSON 200 (JObject [(''users'', JArray
     [JObject [(''id'', JString ''1''), (''name'', JString ''Ada'')],
      JObject [(''id'', JString ''2''), (''name'', JString ''Linus'')]])])"

definition getUser :: "gostring \<Rightarrow> response \<Rightarrow> response" where
  "getUser path_id =
     (let ident = TrimSpace path_id
      in mock_writeJSON 200 (JObject [(''id'', JString ident), (''name'', JString (''Demo User '' @ ident))]))"

definition listOrders :: "response \<Rightarrow> response" where
  "listOrders = mock_writeJSON 200 (JObject [(''orders'', JArray
     [JObject [(''id'', JString ''101''), (''status'', JString ''created''), (''amount'', JNumber 499)],
      JObject [(''id'', JString ''102''), (''status'', JString ''shipped''), (''amount'', JNumber 1299)]])])"

definition getOrder :: "gostring \<Rightarrow> response \<Rightarrow> response" where
  "getOrder path_id =
     (let ident = TrimSpace path_id
      in mock_writeJSON 200 (JObject [(''id'', JString ident), (''status'', JString ''created''), (''amount'', JNumber 799)]))"

definition mock_health :: "gostring \<Rightarrow> response \<Rightarrow> response" where
  "mock_health service = mock_writeJSON 200 (JObject [(''service'', JString service), (''status'', JString ''ok'')])"

section \<open>Routing\<close>

text \<open>The wildcard \<open>{id}\<close> at the end of a pattern takes one segment, which is not empty.\<close>

definition last_segment :: "gostring \<Rightarrow> gostring \<Rightarrow> gostring option" where
  "last_segment base path =
     (let seg = drop (length base) path
      in if HasPrefix path base \<and> seg \<noteq> [] \<and> CHR ''/'' \<notin> set seg then Some seg else None)"

text \<open>The handlers \<open>NewHandler\<close> registers, all with \<open>GET\<close>, by the path they match.\<close>

definition mock_endpoint :: "gostring \<Rightarrow> gostring \<Rightarrow> (response \<Rightarrow> response) option" where
  "mock_endpoint service path =
     (if path = ''/health'' then Some (mock_health service)
      else if service = ''user-service'' then
        (if path = ''/api/users'' then Some listUsers else map_option getUser (last_segment ''/api/users/'' path))
      else
        (if path = ''/api/orders'' then Some listOrders else map_option getOrder (last_segment ''/api/orders/'' path)))"

definition http_Error :: "gostring \<Rightarrow> int \<Rightarrow> response \<Rightarrow> response" where
  "http_Error msg code w =
     snd (Write (msg @ [CHR 0x0A]) (snd (WriteHeader code
       (response_header (\<lambda>h. hset ''X-Content-Type-Options'' ''nosniff''
         (hset ''Content-Type'' ''text/plain; charset=utf-8'' (hdel ''Content-Length'' h))) w))))"

text \<open>\<open>http.ServeMux\<close>: a pattern for \<open>GET\<close> also takes \<open>HEAD\<close>; \<open>None\<close> for a redirect to the cleaned path.\<close>

definition mock_mux :: "gostring \<Rightarrow> http_request \<Rightarrow> response \<Rightarrow> response option" where
  "mock_mux service r w =
     (let p = (if rq_method r = ''CONNECT'' then rq_path r else cleanPath (rq_path r))
      in if p \<noteq> rq_path r then None
         else case mock_endpoint service p of
           None \<Rightarrow> Some (http_Error ''404 page not found'' 404 w)
         | Some serve \<Rightarrow>
             if rq_method r \<in> {''GET'', ''HEAD''} then Some (serve w)
             else Some (http_Error ''Method Not Allowed'' 405 (response_header (hset ''Allow'' ''GET, HEAD'') w)))"

text \<open>\<open>requestLog\<close>: the response and the line it prints after the handler has returned.\<close>

definition requestLog ::
  "gostring \<Rightarrow> (http_request \<Rightarrow> response \<Rightarrow> response option) \<Rightarrow> duration \<Rightarrow> http_request \<Rightarrow> response \<Rightarrow> response option \<times> gostring"
where
  "requestLog service next_handler elapsed r w =
     (next_handler r w,
      ''service='' @ service @ '' method='' @ rq_method r @ '' path='' @ rq_path r
        @ '' request_id='' @ hget ''X-Gateway-Request-ID'' (rq_header r)
        @ '' duration_ms='' @ Itoa (elapsed sdiv 1000000) @ [CHR 0x0A])"

definition mock_NewHandler :: "gostring \<Rightarrow> (duration \<Rightarrow> http_request \<Rightarrow> response \<Rightarrow> response option \<times> gostring) result" where
  "mock_NewHandler service =
     (if service \<in> {''user-service'', ''order-service''} then Inr (requestLog service (mock_mux service))
      else Inl (''unknown mock service '' @ [CHR 0x22] @ service @ [CHR 0x22]))"

section \<open>The programs\<close>

text \<open>
  \<open>cmd/user-service/main.go\<close> and \<open>cmd/order-service/main.go\<close>: the listening address, the two timeouts
  of the server and the handler; \<open>None\<close> is \<open>log.Fatal\<close>.
\<close>

record mock_server =
  ms_Addr :: gostring
  ms_ReadHeaderTimeout :: duration
  ms_IdleTimeout :: duration
  ms_Handler :: "duration \<Rightarrow> http_request \<Rightarrow> response \<Rightarrow> response option \<times> gostring"

definition mock_env :: "environment \<Rightarrow> gostring \<Rightarrow> gostring \<Rightarrow> gostring" where
  "mock_env getenv name fallback = (let v = getenv name in if v \<noteq> [] then v else fallback)"

definition mock_run :: "gostring \<Rightarrow> gostring \<Rightarrow> mock_server option" where
  "mock_run service port =
     (case mock_NewHandler service of
        Inl err \<Rightarrow> None
      | Inr h \<Rightarrow> Some \<lparr>ms_Addr = '':'' @ port, ms_ReadHeaderTimeout = 5 * time_Second, ms_IdleTimeout = 60 * time_Second,
                      ms_Handler = h\<rparr>)"

definition user_service_main :: "environment \<Rightarrow> mock_server option" where
  "user_service_main getenv = mock_run ''user-service'' (mock_env getenv ''PORT'' ''8081'')"

definition order_service_main :: "environment \<Rightarrow> mock_server option" where
  "order_service_main getenv = mock_run ''order-service'' (mock_env getenv ''PORT'' ''8082'')"

text \<open>
  After the start: the listener may fail, which ends the program with status 1; a signal leads to
  \<open>server.Shutdown\<close>, whose error is only logged.
\<close>

datatype service_phase = Listening | Stopping | Ended int

inductive service_step :: "service_phase \<Rightarrow> service_phase \<Rightarrow> bool" where
  listen_failed: "service_step Listening (Ended 1)"
| signalled: "service_step Listening Stopping"
| shut_down: "service_step Stopping (Ended 0)"

inductive_simps service_stops: "service_step Stopping ph"

text \<open>Both programs start, and with nothing configured they listen where the gateway looks for them.\<close>

lemma mock_services_start:
  "\<exists>u. user_service_main getenv = Some u" "\<exists>u. order_service_main getenv = Some u"
  by (simp_all add: user_service_main_def order_service_main_def mock_run_def mock_NewHandler_def)

lemma mock_default_ports:
  "map_option (\<lambda>u. ''http://localhost'' @ ms_Addr u) (user_service_main (\<lambda>name. [])) = Some (UserServiceURL (initial_config (\<lambda>name. [])))"
  "map_option (\<lambda>u. ''http://localhost'' @ ms_Addr u) (order_service_main (\<lambda>name. [])) = Some (OrderServiceURL (initial_config (\<lambda>name. [])))"
  by (simp_all add: user_service_main_def order_service_main_def mock_run_def mock_NewHandler_def mock_env_def initial_config_def env_def)

section \<open>Answers\<close>

text \<open>On a fresh writer every endpoint is a complete answer with status 200.\<close>

definition mock_answer :: "json \<Rightarrow> response \<Rightarrow> response" where
  "mock_answer payload w = w\<lparr>rw_header := hset ''Content-Type'' ''application/json'' [],
     rw_status := Some 200, rw_sent := hset ''Content-Type'' ''application/json'' [],
     rw_written := int (length (json_text payload) + 1),
     rw_body := (if rw_head w then [] else json_text payload @ [CHR 0x0A])\<rparr>"

lemma content_headers: "canonical ''Content-Type'' = ''Content-Type''" "canonical ''Content-Length'' = ''Content-Length''"
  "canonical ''Date'' = ''Date''" "canonical ''X-Upstream-Service'' = ''X-Upstream-Service''"
  "canonical ''X-Request-ID'' = ''X-Request-Id''" "map canonical hopHeaders = hopHeaders"
  by code_simp+

lemma mock_writeJSON_fresh: "mock_writeJSON 200 payload (new_response b) = mock_answer payload (new_response b)"
  by (simp add: mock_writeJSON_def mock_answer_def new_response_def WriteHeader_def Write_def response_header_def
      bodyAllowedForStatus_def declared_length_def hget_def hvalues_def hset_def content_headers Let_def)

lemma mock_endpoint_answers:
  "mock_endpoint service path = Some serve \<Longrightarrow> \<exists>payload. \<forall>b. serve (new_response b) = mock_answer payload (new_response b)"
  by (auto simp: mock_endpoint_def mock_health_def listUsers_def getUser_def listOrders_def getOrder_def
      mock_writeJSON_fresh Let_def split: if_splits)

section \<open>The service behind the gateway\<close>

text \<open>
  The reply on the wire: the server of \<open>net/http\<close> adds the date, and the length of a body that fits its
  buffer of 2048 bytes; a longer one is sent in chunks.
\<close>

definition length_header :: "gostring \<Rightarrow> headers" where
  "length_header b = (if length b \<le> 2048 then [(''Content-Length'', [Itoa (int (length b))])] else [])"

definition server_reply :: "gostring \<Rightarrow> response \<Rightarrow> reply" where
  "server_reply date w = \<lparr>rp_early = [], rp_status = (case rw_status w of None \<Rightarrow> 200 | Some code \<Rightarrow> code),
     rp_header = rw_sent w @ [(''Date'', [date])] @ length_header (rw_body w),
     rp_body = [rw_body w], rp_end = Complete\<rparr>"

lemma fold_hdel: "fold hdel ks h = fold AList.delete (map canonical ks) h"
  by (induction ks arbitrary: h) (simp_all add: hdel_def)

lemma end_to_end_headers:
  "removeHopByHopHeaders ((''Content-Type'', a) # (''Date'', b) # length_header c)
     = (''Content-Type'', a) # (''Date'', b) # length_header c"
  unfolding removeHopByHopHeaders_def fold_hdel content_headers
  by (simp add: connection_tokens_def hvalues_def hopHeaders_def length_header_def)

text \<open>A final reply with one chunk of the declared length reaches the client as it is.\<close>

lemma deliver_whole:
  assumes "\<not> wroteHeader (recorder x)" and "rw_status (inner (recorder x)) = None" and "rw_written (inner (recorder x)) = 0"
    and "rp_early rp = []" and "200 \<le> rp_status rp" and "rp_status rp \<le> 999" and "bodyAllowedForStatus (rp_status rp)"
    and "rp_body rp = [b]" and "b \<noteq> []" and "rp_end rp = Complete"
    and "H = hcopy (hset ''X-Upstream-Service'' service (removeHopByHopHeaders (rp_header rp))) (rw_header (inner (recorder x)))"
    and "declared_length H \<in> {None, Some (int (length b))}"
  shows "\<not> fst (deliver service out rp x)
    \<and> rw_status (inner (recorder (snd (deliver service out rp x)))) = Some (rp_status rp)
    \<and> rw_sent (inner (recorder (snd (deliver service out rp x)))) = H
    \<and> rw_body (inner (recorder (snd (deliver service out rp x))))
      = (if rw_head (inner (recorder x)) then rw_body (inner (recorder x)) else rw_body (inner (recorder x)) @ b)"
  using assms
  by (auto simp: deliver_def recorder_WriteHeader_def recorder_Write_def recorder_header_def WriteHeader_def Write_def
      response_header_def Let_def)

lemma client_headers:
  assumes "gate_update f" and "h0 = f (hset ''X-Request-ID'' rid [])"
    and "H = hcopy (hset ''X-Upstream-Service'' service ((''Content-Type'', [a]) # (''Date'', [date]) # length_header b)) h0"
  shows "declared_length H \<in> {None, Some (int (length b))}" and "hget ''X-Upstream-Service'' H = service" and "hget ''X-Request-ID'' H = rid"
    and "hget ''Content-Type'' H = a"
proof -
  have f: "hvalues h0 k = hvalues (hset ''X-Request-ID'' rid []) k" if "k \<notin> gate_keys" for k
    using assms(1,2) that by (simp add: gate_update_def)
  have "hget ''Content-Length'' H = (if length b \<le> 2048 then Itoa (int (length b)) else [])"
    and "hget ''X-Upstream-Service'' H = service" and "hget ''X-Request-ID'' H = rid" and "hget ''Content-Type'' H = a"
    by (simp_all add: assms(3) hget_def hvalues_hcopy f content_headers gate_keys_def)
      (simp_all add: hset_def hvalues_def content_headers length_header_def)
  moreover from this(1) have "declared_length H \<in> {None, Some (int (length b))}"
    by (simp add: declared_length_def Atoi_Itoa in_int64_def)
  ultimately show "declared_length H \<in> {None, Some (int (length b))}" and "hget ''X-Upstream-Service'' H = service"
    and "hget ''X-Request-ID'' H = rid" and "hget ''Content-Type'' H = a" by simp_all
qed

text \<open>The service's answer, delivered to a client whose headers the gate has touched.\<close>

lemma deliver_mock_answer:
  assumes "gate_update f" and "recorder x = recorder_header f (new_recorder
      (response_header (hset ''X-Request-ID'' rid) (new_response False)))"
    and "y = deliver service out (server_reply date (mock_answer payload (new_response False))) x"
  shows "\<not> fst y" and "rw_status (inner (recorder (snd y))) = Some 200"
    and "rw_body (inner (recorder (snd y))) = json_text payload @ [CHR 0x0A]"
    and "hget ''X-Upstream-Service'' (rw_sent (inner (recorder (snd y)))) = service"
    and "hget ''X-Request-ID'' (rw_sent (inner (recorder (snd y)))) = rid"
    and "hget ''Content-Type'' (rw_sent (inner (recorder (snd y)))) = ''application/json''"
proof -
  let ?rp = "server_reply date (mock_answer payload (new_response False))" and ?b = "json_text payload @ [CHR 0x0A]"
  define H where "H = hcopy (hset ''X-Upstream-Service'' service (removeHopByHopHeaders (rp_header ?rp)))
      (rw_header (inner (recorder x)))"
  have hdr: "rw_header (inner (recorder x)) = f (hset ''X-Request-ID'' rid [])"
    by (simp add: assms(2) recorder_header_def new_recorder_def new_response_def http)
  have rp_header: "removeHopByHopHeaders (rp_header ?rp)
      = (''Content-Type'', [''application/json'']) # (''Date'', [date]) # length_header ?b"
    by (simp add: server_reply_def mock_answer_def new_response_def hset_def content_headers end_to_end_headers)
  note H = client_headers [OF assms(1) hdr H_def [unfolded rp_header]]
  have fresh: "\<not> wroteHeader (recorder x)" "rw_status (inner (recorder x)) = None" "rw_written (inner (recorder x)) = 0"
    "rw_body (inner (recorder x)) = []" "\<not> rw_head (inner (recorder x))"
    by (simp_all add: assms(2) recorder_header_def new_recorder_def new_response_def http)
  have rp: "rp_early ?rp = []" "rp_status ?rp = 200" "rp_body ?rp = [?b]" "rp_end ?rp = Complete"
    by (simp_all add: server_reply_def mock_answer_def new_response_def)
  note whole = deliver_whole [OF fresh(1-3) rp(1) _ _ _ rp(3) _ rp(4) H_def H(1), of out, folded assms(3)]
  show "\<not> fst y" "rw_status (inner (recorder (snd y))) = Some 200" "rw_body (inner (recorder (snd y))) = ?b"
    using whole fresh(4,5) rp(2) by (simp_all add: bodyAllowedForStatus_def)
  have "rw_sent (inner (recorder (snd y))) = H" using whole rp(2) by (simp add: bodyAllowedForStatus_def)
  then show "hget ''X-Upstream-Service'' (rw_sent (inner (recorder (snd y)))) = service"
    "hget ''X-Request-ID'' (rw_sent (inner (recorder (snd y)))) = rid"
    "hget ''Content-Type'' (rw_sent (inner (recorder (snd y)))) = ''application/json''" using H(2-4) by simp_all
qed

lemma Director_fields [xch]:
  "rq_method (Director target r) = rq_method r" "rq_path (Director target r) = singleJoiningSlash (tg_path target) (rq_path r)"
  by (simp_all add: Director_def original_director_def Let_def)

lemma forward_headers_fields [xch]: "rq_method (forward_headers r out) = rq_method out" "rq_path (forward_headers r out) = rq_path out"
  by (simp_all add: forward_headers_def Let_def)

lemma routed_proxy:
  assumes "(service, target) \<in> {(''user-service'', h_user h), (''order-service'', h_order h)}"
    and "mock_endpoint service (rq_path r) = Some serve" and "rq_path r \<noteq> ''/health''"
  shows "route h r x = proxy h service target r x"
  using assms
  by (auto simp: route_def mock_endpoint_def last_segment_def HasPrefix_def Let_def split: if_splits elim!: prefixE)

text \<open>
  C12. A request through the whole system: an admitted \<open>GET\<close> on a path the mock service serves is sent to
  that service once, the client gets the service's answer unchanged, marked with the service and its own
  request identifier, and the line the service logs names the same identifier.
\<close>

theorem mock_answers_through_gateway:
  assumes pass: "gate h (hget ''X-API-Key'' (rq_header r)) (rq_path r) = Pass p"
    and rq: "rq_method r = ''GET''" "connection_tokens (rq_header r) = []"
    and path: "mock_endpoint service (rq_path r) = Some serve" "rq_path r \<noteq> ''/health''" "cleanPath (rq_path r) = rq_path r"
    and target: "(service, target) \<in> {(''user-service'', h_user h), (''order-service'', h_order h)}" "tg_path target = []"
    and new: "mock_NewHandler service = Inr mock"
    and up: "\<forall>out w. fst (mock elapsed out (new_response False)) = Some w \<longrightarrow>
        h_upstream h service target out = Answered (server_reply date w)"
    and x: "x = fst (api h cfg am r (new_response False) g)"
  shows "\<exists>out. sent x = [(service, out)]
    \<and> snd (mock elapsed out (new_response False)) = ''service='' @ service @ '' method=GET path='' @ rq_path r
        @ '' request_id='' @ request_id am r @ '' duration_ms='' @ Itoa (elapsed sdiv 1000000) @ [CHR 0x0A]
    \<and> rw_status (inner (recorder x)) = Some 200
    \<and> rw_body (inner (recorder x)) = rw_body (serve (new_response False))
    \<and> hget ''Content-Type'' (rw_sent (inner (recorder x))) = ''application/json''
    \<and> hget ''X-Upstream-Service'' (rw_sent (inner (recorder x))) = service
    \<and> hget ''X-Request-ID'' (rw_sent (inner (recorder x))) = request_id am r"
proof -
  let ?r = "(inner_request am r)\<lparr>rq_principal := Some p\<rparr>" and ?rid = "request_id am r"
  define out where "out = forward_headers ?r (Director target ?r)"
  obtain f x1 where f: "gate_update f" and x1: "recorder x1 = recorder_header f (new_recorder
      (response_header (hset ''X-Request-ID'' ?rid) (new_response False)))" "sent x1 = []"
    and x_eq: "x = snd (recoverPanic (route h) ?r x1)"
    using chain_pass [of h "inner_request am r" p "inner_exchange am r (new_response False)"] pass x
    by (auto simp: api_eq xch Let_def)
  obtain payload where payload: "serve (new_response b) = mock_answer payload (new_response b)" for b
    using mock_endpoint_answers [OF path(1)] by blast
  let ?w = "mock_answer payload (new_response False)"
  have mock: "mock = requestLog service (mock_mux service)"
    using new by (simp add: mock_NewHandler_def split: if_splits)
  have slash: "HasPrefix (rq_path r) ''/''"
    using path(1) by (auto simp: mock_endpoint_def last_segment_def HasPrefix_def Let_def split: if_splits elim!: prefixE)
  have out_fields: "rq_method out = ''GET''" "rq_path out = rq_path r"
    using rq(1) target(2) slash by (simp_all add: out_def xch singleJoiningSlash_def)
  have rid: "hget ''X-Gateway-Request-ID'' (rq_header out) = ?rid"
    unfolding out_def using rq(2) by (subst forwarded_request_id) (simp_all add: xch requestIDFromContext_def)
  have answered: "h_upstream h service target out = Answered (server_reply date ?w)"
    using up path payload out_fields by (simp add: mock requestLog_def mock_mux_def)
  have up_none: "upgradeType (rq_header (Director target ?r)) = []"
    using rq(2) by (simp add: upgradeType_def Director_tokens xch)
  let ?x2 = "x1\<lparr>sent := [(service, out)]\<rparr>"
  have route: "route h ?r x1 = deliver service out (server_reply date ?w) ?x2"
    using routed_proxy [of service target h ?r serve x1] target(1) path answered up_none x1(2)
    by (simp add: xch proxy_def out_def [symmetric])
  note dl = deliver_mock_answer [OF f _ refl, of ?x2 ?rid service out date payload, unfolded route [symmetric]]
  have "sent (snd (route h ?r x1)) = [(service, out)]" unfolding route by (simp add: deliver_fields)
  moreover have "x = snd (route h ?r x1)" unfolding x_eq using recoverPanic_returns [of "route h" ?r x1] dl(1) x1(1) by simp
  moreover have "snd (mock elapsed out (new_response False)) = ''service='' @ service @ '' method=GET path='' @ rq_path r
        @ '' request_id='' @ ?rid @ '' duration_ms='' @ Itoa (elapsed sdiv 1000000) @ [CHR 0x0A]"
    by (simp add: mock requestLog_def out_fields rid)
  moreover have "rw_body (serve (new_response False)) = json_text payload @ [CHR 0x0A]"
    unfolding payload by (simp add: mock_answer_def new_response_def)
  ultimately show ?thesis using dl(2-6) x1(1) by auto
qed

definition mock_upstream :: upstream where
  "mock_upstream service target out =
     (case mock_NewHandler service of
        Inl err \<Rightarrow> Unreachable err
      | Inr mock \<Rightarrow>
          (case fst (mock 0 out (new_response False)) of
             None \<Rightarrow> Unreachable ''redirected'' | Some w \<Rightarrow> Answered (server_reply ''now'' w)))"

lemma getUser_body:
  "rw_body (getUser ''7'' (new_response False))
     = [CHR ''{'', CHR 0x22] @ ''id'' @ [CHR 0x22, CHR '':'', CHR 0x22] @ ''7'' @ [CHR 0x22, CHR '','', CHR 0x22] @ ''name''
       @ [CHR 0x22, CHR '':'', CHR 0x22] @ ''Demo User 7'' @ [CHR 0x22, CHR ''}'', CHR 0x0A]"
proof -
  have "TrimSpace ''7'' = ''7''" by (simp add: TrimSpace_graphic graphic_def)
  moreover have "json_text (JObject [(''id'', JString ''7''), (''name'', JString ''Demo User 7'')])
     = [CHR ''{'', CHR 0x22] @ ''id'' @ [CHR 0x22, CHR '':'', CHR 0x22] @ ''7'' @ [CHR 0x22, CHR '','', CHR 0x22] @ ''name''
       @ [CHR 0x22, CHR '':'', CHR 0x22] @ ''Demo User 7'' @ [CHR 0x22, CHR ''}'']"
    by code_simp
  moreover have "rw_body (mock_answer payload (new_response False)) = json_text payload @ [CHR 0x0A]" for payload
    by (simp add: mock_answer_def new_response_def)
  ultimately show ?thesis by (simp add: getUser_def mock_writeJSON_fresh Let_def del: json_text.simps)
qed

theorem mock_answers_through_gateway_witness:
  "rw_body (inner (recorder (fst (api ((sample_handler sample_reply)\<lparr>h_upstream := mock_upstream\<rparr>) sample_config sample_ambient
      sample_request (new_response False) sample_shared))))
   = [CHR ''{'', CHR 0x22] @ ''id'' @ [CHR 0x22, CHR '':'', CHR 0x22] @ ''7'' @ [CHR 0x22, CHR '','', CHR 0x22] @ ''name''
       @ [CHR 0x22, CHR '':'', CHR 0x22] @ ''Demo User 7'' @ [CHR 0x22, CHR ''}'', CHR 0x0A]"
proof -
  let ?h = "(sample_handler sample_reply)\<lparr>h_upstream := mock_upstream\<rparr>"
  have gate: "gate ?h (hget ''X-API-Key'' (rq_header sample_request)) (rq_path sample_request) = Pass sample_principal"
    using canonical_api_key by (simp add: gate_def admission_def sample_handler_def sample_request_def hget_def hvalues_def)
  have new: "mock_NewHandler ''user-service'' = Inr (requestLog ''user-service'' (mock_mux ''user-service''))"
    by (simp add: mock_NewHandler_def)
  have path: "mock_endpoint ''user-service'' (rq_path sample_request) = Some (getUser ''7'')"
    "rq_path sample_request \<noteq> ''/health''"
    by (simp_all add: mock_endpoint_def last_segment_def HasPrefix_def sample_request_def)
  have clean: "cleanPath (rq_path sample_request) = rq_path sample_request" by code_simp
  have up: "\<forall>out w. fst (requestLog ''user-service'' (mock_mux ''user-service'') 0 out (new_response False)) = Some w \<longrightarrow>
      h_upstream ?h ''user-service'' (h_user ?h) out = Answered (server_reply ''now'' w)"
    by (simp add: mock_upstream_def new)
  have rq: "rq_method sample_request = ''GET''" "connection_tokens (rq_header sample_request) = []"
    and target: "(''user-service'', h_user ?h) \<in> {(''user-service'', h_user ?h), (''order-service'', h_order ?h)}"
      "tg_path (h_user ?h) = []"
    by (simp_all add: sample_request_def connection_tokens_def hvalues_def sample_handler_def sample_target_def)
  have "rw_body (inner (recorder (fst (api ?h sample_config sample_ambient sample_request (new_response False) sample_shared))))
      = rw_body (getUser ''7'' (new_response False))"
    using mock_answers_through_gateway [OF gate rq path clean target new up refl, of sample_config sample_ambient sample_shared]
    by blast
  then show ?thesis unfolding getUser_body .
qed

text \<open>A service that is not one of the two is refused.\<close>

lemma unknown_mock_refused: "service \<notin> {''user-service'', ''order-service''} \<Longrightarrow> \<exists>err. mock_NewHandler service = Inl err"
  by (simp add: mock_NewHandler_def)

end
