(* ===== verification/Schema_Migrations.thy ===== *)
theory Schema_Migrations
  imports Gateway_Prelude "HOL-Library.List_Lexorder" "HOL-Library.Char_ord"
begin

text \<open>
  \<open>internal/store/postgres.go\<close>: \<open>Migrate\<close> and \<open>applyMigration\<close>.  The database is the list of recorded
  versions (\<open>None\<close> before \<open>schema_migrations\<close> exists) and the rest of the schema, which only the SQL of
  the migrations changes; the effect of that SQL and the embedded files are arguments, and so are the
  failures of every call, a commit whose outcome is unknown included.  A transaction holds the advisory
  lock from before the check to its end, so migrators interleave transaction by transaction.
\<close>

section \<open>State and calls\<close>

record 'o schema =
  versions :: "gostring list option"
  objects :: 'o

text \<open>A failed commit may or may not have taken effect.\<close>

datatype commit_result = Committed | CommitFailed string bool

record faults =
  begin_fault :: "string option"
  lock_fault :: "string option"
  check_fault :: "string option"
  exec_fault :: "string option"
  insert_fault :: "string option"
  commit_outcome :: commit_result

definition TrimPrefix :: "gostring \<Rightarrow> gostring \<Rightarrow> gostring" where
  "TrimPrefix s p = (if HasPrefix s p then drop (length p) s else s)"

definition TrimSuffix :: "gostring \<Rightarrow> gostring \<Rightarrow> gostring" where
  "TrimSuffix s p = (if suffix p s then take (length s - length p) s else s)"

definition version_of :: "gostring \<Rightarrow> gostring" where
  "version_of path = TrimSuffix (TrimPrefix path ''migrations/'') ''.sql''"

text \<open>A migration's text, as the source's embedded file system reads it, and its execution.\<close>

type_synonym files = "gostring \<Rightarrow> gostring result"
type_synonym 'o executor = "gostring \<Rightarrow> 'o \<Rightarrow> 'o result"

section \<open>Operations\<close>

definition commit_tx :: "faults \<Rightarrow> gostring \<Rightarrow> 'o schema \<Rightarrow> 'o schema \<Rightarrow> string option \<times> 'o schema" where
  "commit_tx fl message db db' =
     (case commit_outcome fl of
        Committed \<Rightarrow> (None, db')
      | CommitFailed err took \<Rightarrow> (Some (message @ err), if took then db' else db))"

definition applyMigration :: "files \<Rightarrow> 'o executor \<Rightarrow> faults \<Rightarrow> gostring \<Rightarrow> 'o schema \<Rightarrow> string option \<times> 'o schema" where
  "applyMigration read exec fl path db =
     (case read path of Inl err \<Rightarrow> (Some (''read migration '' @ path @ '': '' @ err), db) | Inr content \<Rightarrow>
      let version = version_of path in
      case begin_fault fl of Some err \<Rightarrow> (Some (''begin migration '' @ version @ '': '' @ err), db) | None \<Rightarrow>
      case lock_fault fl of Some err \<Rightarrow> (Some (''lock migrations: '' @ err), db) | None \<Rightarrow>
      case check_fault fl of Some err \<Rightarrow> (Some (''check migration '' @ version @ '': '' @ err), db) | None \<Rightarrow>
      case versions db of
        None \<Rightarrow> (Some (''check migration '' @ version @ '': no such table''), db)
      | Some vs \<Rightarrow>
      if version \<in> set vs then commit_tx fl [] db db
      else
        case exec_fault fl of Some err \<Rightarrow> (Some (''apply migration '' @ version @ '': '' @ err), db) | None \<Rightarrow>
        case exec content (objects db) of Inl err \<Rightarrow> (Some (''apply migration '' @ version @ '': '' @ err), db) | Inr ob \<Rightarrow>
        case insert_fault fl of Some err \<Rightarrow> (Some (''record migration '' @ version @ '': '' @ err), db) | None \<Rightarrow>
        commit_tx fl (''commit migration '' @ version @ '': '') db \<lparr>versions = Some (vs @ [version]), objects = ob\<rparr>)"

definition create_table :: "'o schema \<Rightarrow> 'o schema" where
  "create_table db = (case versions db of None \<Rightarrow> db\<lparr>versions := Some []\<rparr> | Some vs \<Rightarrow> db)"

fun apply_all :: "files \<Rightarrow> 'o executor \<Rightarrow> (gostring \<Rightarrow> faults) \<Rightarrow> gostring list \<Rightarrow> 'o schema \<Rightarrow> string option \<times> 'o schema" where
  "apply_all read exec fls [] db = (None, db)"
| "apply_all read exec fls (path # paths) db =
     (case applyMigration read exec (fls path) path db of
        (Some err, db') \<Rightarrow> (Some err, db')
      | (None, db') \<Rightarrow> apply_all read exec fls paths db')"

definition Migrate ::
  "gostring list result \<Rightarrow> files \<Rightarrow> 'o executor \<Rightarrow> string option \<Rightarrow> (gostring \<Rightarrow> faults) \<Rightarrow> 'o schema \<Rightarrow> string option \<times> 'o schema"
where
  "Migrate listing read exec create_fault fls db =
     (case listing of Inl err \<Rightarrow> (Some (''list migrations: '' @ err), db) | Inr paths \<Rightarrow>
      case create_fault of Some err \<Rightarrow> (Some (''create schema_migrations: '' @ err), db) | None \<Rightarrow>
      apply_all read exec fls (sort paths) (create_table db))"

section \<open>Concurrent migrators\<close>

text \<open>A process in \<open>Migrate\<close>: before the table is created, with the files still to apply, or failed.\<close>

datatype migrator = Starting | Applying "gostring list" | Aborted string

inductive migrator_step ::
  "gostring list \<Rightarrow> files \<Rightarrow> 'o executor \<Rightarrow> 'o schema \<times> migrator list \<Rightarrow> 'o schema \<times> migrator list \<Rightarrow> bool"
  for paths read exec
where
  create: "i < length ps \<Longrightarrow> ps ! i = Starting \<Longrightarrow>
    migrator_step paths read exec (db, ps) (create_table db, ps[i := Applying (sort paths)])"
| create_failed: "i < length ps \<Longrightarrow> ps ! i = Starting \<Longrightarrow>
    migrator_step paths read exec (db, ps) (db, ps[i := Aborted err])"
| apply_ok: "i < length ps \<Longrightarrow> ps ! i = Applying (path # rest) \<Longrightarrow>
    applyMigration read exec fl path db = (None, db') \<Longrightarrow>
    migrator_step paths read exec (db, ps) (db', ps[i := Applying rest])"
| apply_failed: "i < length ps \<Longrightarrow> ps ! i = Applying (path # rest) \<Longrightarrow>
    applyMigration read exec fl path db = (Some err, db') \<Longrightarrow>
    migrator_step paths read exec (db, ps) (db', ps[i := Aborted err])"

text \<open>The reference: the first \<open>k\<close> files, executed one after the other.\<close>

fun exec_all :: "files \<Rightarrow> 'o executor \<Rightarrow> gostring list \<Rightarrow> 'o \<Rightarrow> 'o option" where
  "exec_all read exec [] ob = Some ob"
| "exec_all read exec (path # paths) ob =
     (case read path of Inl err \<Rightarrow> None | Inr content \<Rightarrow>
      case exec content ob of Inl err \<Rightarrow> None | Inr ob' \<Rightarrow> exec_all read exec paths ob')"

definition upto_version :: "gostring list \<Rightarrow> files \<Rightarrow> 'o executor \<Rightarrow> 'o \<Rightarrow> nat \<Rightarrow> 'o schema \<Rightarrow> bool" where
  "upto_version paths read exec ob k db \<longleftrightarrow> k \<le> length paths \<and> versions db = Some (map version_of (take k (sort paths)))
     \<and> exec_all read exec (take k (sort paths)) ob = Some (objects db)"

text \<open>What \<open>Glob\<close> lists: different files of the embedded directory.\<close>

definition embedded :: "gostring list \<Rightarrow> bool" where
  "embedded paths \<longleftrightarrow> distinct paths \<and> (\<forall>p\<in>set paths. \<exists>n. p = ''migrations/'' @ n @ ''.sql'')"

lemma version_of_path [simp, go_str]: "version_of (''migrations/'' @ n @ ''.sql'') = n"
  by (simp add: version_of_def TrimPrefix_def TrimSuffix_def HasPrefix_def suffix_def)

lemma embedded_versions:
  assumes "embedded paths"
  shows "distinct (map version_of (sort paths))"
proof -
  have "inj_on version_of (set paths)"
    using assms unfolding embedded_def by (intro inj_onI) (metis version_of_path)
  then show ?thesis using assms by (simp add: distinct_map embedded_def)
qed

lemma version_recorded:
  assumes "embedded paths" and "drop m (sort paths) = path # rest" and "k \<le> length paths"
  shows "version_of path \<in> set (map version_of (take k (sort paths))) \<longleftrightarrow> m < k"
proof -
  let ?vs = "map version_of (sort paths)"
  have m: "m < length paths" using assms(2) by (metis drop_eq_Nil length_sort list.distinct(1) not_le)
  have v: "version_of path = ?vs ! m"
    using assms(2) m by (metis nth_map length_sort hd_drop_conv_nth list.sel(1))
  have "?vs ! m \<in> set (take k ?vs) \<longleftrightarrow> m < k"
  proof
    assume "?vs ! m \<in> set (take k ?vs)"
    then obtain j where j: "j < k" "j < length ?vs" "?vs ! j = ?vs ! m" by (auto simp: in_set_conv_nth)
    then have "j = m" using nth_eq_iff_index_eq [OF embedded_versions [OF assms(1)], of j m] m by simp
    then show "m < k" using j by simp
  next
    assume "m < k"
    then show "?vs ! m \<in> set (take k ?vs)" using m by (auto simp: in_set_conv_nth intro!: exI [of _ m])
  qed
  then show ?thesis by (simp add: v take_map)
qed

lemma exec_all_append:
  "exec_all read exec (ps @ qs) ob = (case exec_all read exec ps ob of None \<Rightarrow> None | Some ob' \<Rightarrow> exec_all read exec qs ob')"
  by (induction ps arbitrary: ob) (auto split: sum.splits)

text \<open>One transaction takes the schema from one version to the same or the next; success means at least past its own file.\<close>

lemma applyMigration_upto:
  assumes paths: "embedded paths" and at: "upto_version paths read exec ob k db"
    and path: "drop m (sort paths) = path # rest" "m \<le> k"
    and run: "applyMigration read exec fl path db = (res, db')"
  shows "\<exists>k'. k \<le> k' \<and> upto_version paths read exec ob k' db' \<and> (res = None \<longrightarrow> m < k')"
proof -
  have k: "k \<le> length paths" "versions db = Some (map version_of (take k (sort paths)))"
    "exec_all read exec (take k (sort paths)) ob = Some (objects db)"
    using at by (simp_all add: upto_version_def)
  note recorded = version_recorded [OF paths path(1) k(1)]
  show ?thesis
  proof (cases "m < k")
    case True
    then have "db' = db"
      using run recorded k(2) by (auto simp: applyMigration_def commit_tx_def Let_def split: sum.splits option.splits commit_result.splits if_splits)
    then show ?thesis using at True by blast
  next
    case False
    then have [simp]: "m = k" using path(2) by simp
    have kl: "k < length (sort paths)" "sort paths ! k = path"
      using path(1) by (metis drop_eq_Nil list.distinct(1) not_le \<open>m = k\<close>, metis path(1) \<open>m = k\<close> drop_eq_Nil list.distinct(1) not_le hd_drop_conv_nth list.sel(1))
    then have step: "take (Suc k) (sort paths) = take k (sort paths) @ [path]" by (simp add: take_Suc_conv_app_nth)
    have new: "version_of path \<notin> set (map version_of (take k (sort paths)))" using recorded by simp
    have "db' = db \<and> res \<noteq> None \<or> upto_version paths read exec ob (Suc k) db'"
    proof (cases "res = None \<or> db' \<noteq> db")
      case True
      then obtain content ob' where "read path = Inr content" "exec content (objects db) = Inr ob'"
        and db': "db' = \<lparr>versions = Some (map version_of (take k (sort paths)) @ [version_of path]), objects = ob'\<rparr>"
        using run new k(2)
        by (auto simp: applyMigration_def commit_tx_def Let_def
            split: sum.splits option.splits commit_result.splits if_splits)
      then show ?thesis using k kl by (simp add: upto_version_def step exec_all_append)
    qed simp
    then show ?thesis using at by (metis \<open>m = k\<close> lessI less_or_eq_imp_le order_refl)
  qed
qed

section \<open>Any number of processes\<close>

text \<open>Before the first table is created nothing has been applied; afterwards no process is ahead of the schema.\<close>

definition migrators_inv :: "gostring list \<Rightarrow> files \<Rightarrow> 'o executor \<Rightarrow> 'o \<Rightarrow> 'o schema \<times> migrator list \<Rightarrow> bool" where
  "migrators_inv paths read exec ob = (\<lambda>(db, ps).
     (db = \<lparr>versions = None, objects = ob\<rparr> \<and> (\<forall>p\<in>set ps. \<forall>rest. p \<noteq> Applying rest))
   \<or> (\<exists>k. upto_version paths read exec ob k db
        \<and> (\<forall>p\<in>set ps. \<forall>rest. p = Applying rest \<longrightarrow> (\<exists>m\<le>k. rest = drop m (sort paths)))))"

lemma upto_version_create:
  "upto_version paths read exec ob 0 (create_table \<lparr>versions = None, objects = ob\<rparr>)"
  "upto_version paths read exec ob k db \<Longrightarrow> create_table db = db"
  by (auto simp: upto_version_def create_table_def)

lemma migrators_inv_update:
  assumes "upto_version paths read exec ob k' db'" and "k \<le> k'"
    and "\<forall>p\<in>set ps. \<forall>rest. p = Applying rest \<longrightarrow> (\<exists>m\<le>k. rest = drop m (sort paths))"
    and "\<And>rest. q = Applying rest \<Longrightarrow> \<exists>m\<le>k'. rest = drop m (sort paths)"
  shows "migrators_inv paths read exec ob (db', ps[i := q])"
proof -
  have "\<exists>m\<le>k'. rest = drop m (sort paths)" if p: "p \<in> set (ps[i := q])" "p = Applying rest" for p rest
  proof (cases "p = q")
    case False
    then have "p \<in> set ps" using p(1) set_update_subset_insert [of ps i q] by blast
    then obtain m where "m \<le> k" "rest = drop m (sort paths)" using assms(3) p(2) by blast
    then show ?thesis using assms(2) order_trans by blast
  qed (use assms(4) that in blast)
  then show ?thesis using assms(1) unfolding migrators_inv_def by blast
qed

abbreviation behind :: "gostring list \<Rightarrow> nat \<Rightarrow> migrator list \<Rightarrow> bool" where
  "behind paths k ps \<equiv> \<forall>p\<in>set ps. \<forall>rest. p = Applying rest \<longrightarrow> (\<exists>m\<le>k. rest = drop m (sort paths))"

lemma applying_advances:
  assumes paths: "embedded paths" and run: "Applying (path # rest) \<in> set ps" "applyMigration read exec fl path db = (res, db')"
    and k: "upto_version paths read exec ob k db" "behind paths k ps"
  shows "\<exists>k' m. k \<le> k' \<and> upto_version paths read exec ob k' db' \<and> (res = None \<longrightarrow> m < k') \<and> rest = drop (Suc m) (sort paths)"
proof -
  obtain m where m: "m \<le> k" "drop m (sort paths) = path # rest" using bspec [OF k(2) run(1)] by auto
  then have "rest = drop (Suc m) (sort paths)" by (metis drop_Suc list.sel(3) tl_drop)
  then show ?thesis using applyMigration_upto [OF paths k(1) m(2,1) run(2)] by blast
qed

text \<open>The first table is created; later steps find it.\<close>

lemma migrator_first_step:
  assumes "migrator_step paths read exec (\<lparr>versions = None, objects = ob\<rparr>, ps) s'" and "\<forall>p\<in>set ps. \<forall>rest. p \<noteq> Applying rest"
  shows "migrators_inv paths read exec ob s'"
  using assms(1)
proof cases
  case (create i)
  have "migrators_inv paths read exec ob (create_table \<lparr>versions = None, objects = ob\<rparr>, ps[i := Applying (sort paths)])"
    by (rule migrators_inv_update [of _ _ _ _ 0 _ 0]) (use assms(2) upto_version_create(1) in auto)
  then show ?thesis using create by simp
next
  case (create_failed i err)
  then show ?thesis using assms(2) set_update_subset_insert [of ps i "Aborted err"] by (auto simp: migrators_inv_def)
qed (use assms(2) in \<open>metis nth_mem\<close>)+

lemma migrator_later_step:
  assumes paths: "embedded paths" and step: "migrator_step paths read exec (db, ps) s'"
    and upto: "upto_version paths read exec ob k db" "behind paths k ps"
  shows "migrators_inv paths read exec ob s'"
proof -
  note update = migrators_inv_update [OF _ _ upto(2)] and advances = applying_advances [OF paths _ _ upto]
  show ?thesis using step
  proof cases
    case (create i)
    have "migrators_inv paths read exec ob (db, ps[i := Applying (sort paths)])"
      by (rule update [OF upto(1)]) (auto intro: exI [of _ 0])
    then show ?thesis using create upto_version_create(2) [OF upto(1)] by simp
  next
    case (create_failed i err)
    have "migrators_inv paths read exec ob (db, ps[i := Aborted err])" by (rule update [OF upto(1)]) auto
    then show ?thesis using create_failed by simp
  next
    case (apply_ok i path rest fl db')
    then have "Applying (path # rest) \<in> set ps" by (metis nth_mem)
    then obtain k' m where k': "k \<le> k'" "upto_version paths read exec ob k' db'" "m < k'" "rest = drop (Suc m) (sort paths)"
      using advances apply_ok by blast
    have "migrators_inv paths read exec ob (db', ps[i := Applying rest])"
      by (rule update [OF k'(2,1)]) (use k' in \<open>auto intro: exI [of _ "Suc m"]\<close>)
    then show ?thesis using apply_ok by simp
  next
    case (apply_failed i path rest fl err db')
    then have "Applying (path # rest) \<in> set ps" by (metis nth_mem)
    then obtain k' where k': "k \<le> k'" "upto_version paths read exec ob k' db'" using advances apply_failed by blast
    have "migrators_inv paths read exec ob (db', ps[i := Aborted err])" by (rule update [OF k'(2,1)]) auto
    then show ?thesis using apply_failed by simp
  qed
qed

lemma migrator_step_inv:
  assumes "embedded paths" and "migrator_step paths read exec s s'" and "migrators_inv paths read exec ob s"
  shows "migrators_inv paths read exec ob s'"
proof -
  obtain db ps where s: "s = (db, ps)" by (cases s)
  from assms(3) consider "db = \<lparr>versions = None, objects = ob\<rparr>" "\<forall>p\<in>set ps. \<forall>rest. p \<noteq> Applying rest"
    | k where "upto_version paths read exec ob k db" "behind paths k ps"
    unfolding migrators_inv_def s by blast
  then show ?thesis
    by cases (use assms(1,2) s in \<open>auto intro: migrator_first_step migrator_later_step\<close>)
qed

lemma migrators_run_inv:
  assumes "(migrator_step paths read exec)\<^sup>*\<^sup>* (\<lparr>versions = None, objects = ob\<rparr>, replicate n Starting) s" and "embedded paths"
  shows "migrators_inv paths read exec ob s"
  using assms(1)
proof (induction rule: rtranclp_induct)
  case base
  then show ?case by (simp add: migrators_inv_def)
next
  case (step y z)
  show ?case by (rule migrator_step_inv [OF assms(2) step(2) step(3)])
qed

text \<open>
  C11. Migrations run once and in order: however many processes migrate at the same time, whatever fails
  and wherever, the recorded versions are always those of the first files in name order and the schema
  is what these files, executed one after the other, make of the empty one; and when any of the
  processes returns without an error, all files have been applied.
\<close>

theorem migrations_once_in_order:
  assumes "embedded paths"
    and "(migrator_step paths read exec)\<^sup>*\<^sup>* (\<lparr>versions = None, objects = ob\<rparr>, replicate n Starting) (db, ps)"
  shows "(\<exists>k\<le>length paths. versions db \<in> {None, Some (map version_of (take k (sort paths)))}
      \<and> exec_all read exec (take k (sort paths)) ob = Some (objects db))
    \<and> (Applying [] \<in> set ps \<longrightarrow> versions db = Some (map version_of (sort paths))
      \<and> exec_all read exec (sort paths) ob = Some (objects db))"
proof -
  from migrators_run_inv [OF assms(2,1)]
  consider "db = \<lparr>versions = None, objects = ob\<rparr>" "Applying [] \<notin> set ps"
    | k where "upto_version paths read exec ob k db" "Applying [] \<in> set ps \<longrightarrow> length paths \<le> k"
    by (fastforce simp: migrators_inv_def)
  then show ?thesis
  proof cases
    case 1
    then show ?thesis by (auto intro!: exI [of _ 0])
  next
    case (2 k)
    then show ?thesis by (auto simp: upto_version_def)
  qed
qed

text \<open>A witness: two files, the second executed by a process of its own after the first one's commit was in doubt.\<close>

definition no_faults :: faults where
  "no_faults = \<lparr>begin_fault = None, lock_fault = None, check_fault = None, exec_fault = None, insert_fault = None,
     commit_outcome = Committed\<rparr>"

definition sample_paths :: "gostring list" where
  "sample_paths = [''migrations/b.sql'', ''migrations/a.sql'']"

definition sample_exec :: "gostring list executor" where
  "sample_exec content ob = Inr (ob @ [content])"

lemma sort_sample_paths: "sort sample_paths = [''migrations/a.sql'', ''migrations/b.sql'']"
  by (simp add: sample_paths_def)

lemma embedded_sample_paths: "embedded sample_paths"
  by (auto simp: embedded_def sample_paths_def intro: exI [of _ "''a''"] exI [of _ "''b''"])

lemma sample_versions: "version_of ''migrations/a.sql'' = ''a''" "version_of ''migrations/b.sql'' = ''b''"
  using version_of_path [of "''a''"] version_of_path [of "''b''"] by simp_all

theorem migrations_once_in_order_witness:
  "\<exists>db ps. (migrator_step sample_paths Inr sample_exec)\<^sup>*\<^sup>* (\<lparr>versions = None, objects = []\<rparr>, replicate 2 Starting) (db, ps)
     \<and> Applying [] \<in> set ps \<and> versions db = Some [''a'', ''b'']
     \<and> exec_all Inr sample_exec (sort sample_paths) [] = Some (objects db)"
proof -
  let ?S = "migrator_step sample_paths Inr sample_exec"
  let ?a = "''migrations/a.sql''" and ?b = "''migrations/b.sql''"
  let ?db0 = "\<lparr>versions = None, objects = []\<rparr>" and ?db1 = "\<lparr>versions = Some [], objects = []\<rparr>"
  let ?db2 = "\<lparr>versions = Some [''a''], objects = [?a]\<rparr>" and ?db3 = "\<lparr>versions = Some [''a'', ''b''], objects = [?a, ?b]\<rparr>"
  let ?lost = "no_faults\<lparr>commit_outcome := CommitFailed ''timeout'' True\<rparr>"
  note defs = sort_sample_paths create_table_def applyMigration_def no_faults_def sample_exec_def commit_tx_def sample_versions
  have "?S (?db0, [Starting, Starting]) (?db1, [Applying [?a, ?b], Starting])"
    using migrator_step.create [of 0 "[Starting, Starting]" sample_paths Inr sample_exec ?db0] by (simp add: defs)
  moreover have "?S (?db1, [Applying [?a, ?b], Starting]) (?db1, [Applying [?a, ?b], Applying [?a, ?b]])"
    using migrator_step.create [of 1 "[Applying [?a, ?b], Starting]" sample_paths Inr sample_exec ?db1] by (simp add: defs)
  moreover have "?S (?db1, [Applying [?a, ?b], Applying [?a, ?b]]) (?db2, [Aborted ''commit migration a: timeout'', Applying [?a, ?b]])"
    using migrator_step.apply_failed [of 0 "[Applying [?a, ?b], Applying [?a, ?b]]" ?a "[?b]" Inr sample_exec ?lost ?db1 _ ?db2 sample_paths]
    by (simp add: defs)
  moreover have "?S (?db2, [Aborted ''commit migration a: timeout'', Applying [?a, ?b]])
      (?db2, [Aborted ''commit migration a: timeout'', Applying [?b]])"
    using migrator_step.apply_ok [of 1 "[Aborted ''commit migration a: timeout'', Applying [?a, ?b]]" ?a "[?b]" Inr sample_exec no_faults ?db2 ?db2 sample_paths]
    by (simp add: defs)
  moreover have "?S (?db2, [Aborted ''commit migration a: timeout'', Applying [?b]])
      (?db3, [Aborted ''commit migration a: timeout'', Applying []])"
    using migrator_step.apply_ok [of 1 "[Aborted ''commit migration a: timeout'', Applying [?b]]" ?b "[]" Inr sample_exec no_faults ?db2 ?db3 sample_paths]
    by (simp add: defs)
  ultimately have run: "?S\<^sup>*\<^sup>* (?db0, replicate 2 Starting) (?db3, [Aborted ''commit migration a: timeout'', Applying []])"
    by (simp add: numeral_2_eq_2)
  then show ?thesis
    using migrations_once_in_order [OF embedded_sample_paths run]
    by (intro exI [of _ ?db3] exI [of _ "[Aborted ''commit migration a: timeout'', Applying []]"]) (simp add: sample_versions sort_sample_paths)
qed

section \<open>Completion\<close>

lemma applyMigration_completes:
  assumes paths: "embedded paths" and at: "upto_version paths read exec ob k db"
    and path: "drop m (sort paths) = path # rest" "m \<le> k"
    and works: "exec_all read exec (sort paths) ob = Some ob'"
  shows "fst (applyMigration read exec no_faults path db) = None"
proof -
  have k: "k \<le> length paths" "versions db = Some (map version_of (take k (sort paths)))"
    "exec_all read exec (take k (sort paths)) ob = Some (objects db)"
    using at by (simp_all add: upto_version_def)
  note recorded = version_recorded [OF paths path(1) k(1)]
  have whole: "sort paths = take m (sort paths) @ path # rest" using path(1) by (metis append_take_drop_id)
  obtain content where content: "read path = Inr content"
    using works by (subst (asm) whole) (auto simp: exec_all_append split: option.splits sum.splits)
  show ?thesis
  proof (cases "m < k")
    case True
    then show ?thesis using content recorded k(2) by (simp add: applyMigration_def commit_tx_def no_faults_def)
  next
    case False
    then have "m = k" using path(2) by simp
    then have "exec_all read exec (path # rest) (objects db) = Some ob'"
      using works k(3) by (subst (asm) whole) (simp add: exec_all_append)
    then obtain ob'' where "exec content (objects db) = Inr ob''" using content by (auto split: sum.splits)
    then show ?thesis
      using content recorded k(2) \<open>m = k\<close> by (simp add: applyMigration_def commit_tx_def no_faults_def)
  qed
qed

lemma apply_all_completes:
  assumes paths: "embedded paths" and works: "exec_all read exec (sort paths) ob = Some ob'"
  shows "upto_version paths read exec ob k db \<Longrightarrow> m \<le> k \<Longrightarrow>
    \<exists>db'. apply_all read exec (\<lambda>p. no_faults) (drop m (sort paths)) db = (None, db')
      \<and> upto_version paths read exec ob (length paths) db'"
proof (induction "length paths - m" arbitrary: m k db)
  case 0
  then have "k = length paths" by (simp add: upto_version_def)
  then show ?case using 0 by simp
next
  case (Suc n)
  obtain path rest where rest: "drop m (sort paths) = path # rest" and next_rest: "rest = drop (Suc m) (sort paths)"
    using Suc.hyps(2) by (metis Cons_nth_drop_Suc length_sort zero_less_Suc zero_less_diff)
  obtain db' where one: "applyMigration read exec no_faults path db = (None, db')"
    using applyMigration_completes [OF paths Suc.prems(1) rest Suc.prems(2) works] by (metis prod.collapse)
  then obtain k' where "upto_version paths read exec ob k' db'" "Suc m \<le> k'"
    using applyMigration_upto [OF paths Suc.prems(1) rest Suc.prems(2)] by (metis Suc_leI)
  then show ?case using Suc.hyps(1) [of "Suc m" k' db'] Suc.hyps(2) one by (simp add: rest flip: next_rest)
qed

text \<open>
  C30. A migration that meets no failure completes: from any version the database was left at, \<open>Migrate\<close>
  returns without error and leaves the schema that the whole sequence of files describes; running it
  again changes nothing.
\<close>

theorem migrate_completes_and_repeats:
  assumes "embedded paths" and "exec_all read exec (sort paths) ob = Some ob'"
    and "upto_version paths read exec ob k (create_table db)"
    and "final = \<lparr>versions = Some (map version_of (sort paths)), objects = ob'\<rparr>"
  shows "Migrate (Inr paths) read exec None (\<lambda>p. no_faults) db = (None, final)
    \<and> Migrate (Inr paths) read exec None (\<lambda>p. no_faults) final = (None, final)"
proof -
  have upto: "upto_version paths read exec ob (length paths) d \<longleftrightarrow> d = final" for d
    using assms(2,4) by (cases d) (auto simp: upto_version_def)
  have "\<exists>db'. apply_all read exec (\<lambda>p. no_faults) (sort paths) d = (None, db') \<and> db' = final"
    if "upto_version paths read exec ob j d" for d j
    using apply_all_completes [OF assms(1,2) that, of 0] by (simp add: upto)
  moreover have "upto_version paths read exec ob (length paths) (create_table final)"
    by (simp add: upto create_table_def assms(4))
  ultimately show ?thesis using assms(3) by (auto simp: Migrate_def)
qed

theorem migrate_completes_and_repeats_witness:
  "Migrate (Inr sample_paths) Inr sample_exec None (\<lambda>p. no_faults) \<lparr>versions = Some [''a''], objects = [''migrations/a.sql'']\<rparr>
     = (None, \<lparr>versions = Some [''a'', ''b''], objects = [''migrations/a.sql'', ''migrations/b.sql'']\<rparr>)"
proof -
  have all: "exec_all Inr sample_exec (sort sample_paths) [] = Some [''migrations/a.sql'', ''migrations/b.sql'']"
    by (simp add: sort_sample_paths sample_exec_def)
  have at: "upto_version sample_paths Inr sample_exec [] 1 (create_table \<lparr>versions = Some [''a''], objects = [''migrations/a.sql'']\<rparr>)"
    using sort_sample_paths by (simp add: upto_version_def create_table_def sample_exec_def sample_versions) (simp add: sample_paths_def)
  show ?thesis
    using migrate_completes_and_repeats [OF embedded_sample_paths all at refl] by (simp add: sort_sample_paths sample_versions)
qed

end
