(* ===== verification/Flag_Parser.thy ===== *)
theory Flag_Parser
  imports Gateway_Config
begin

text \<open>
  Go's package \<open>flag\<close> as the commands use it: \<open>FlagSet.Parse\<close> with \<open>ContinueOnError\<close> over a list of
  declared flags, and the values they take (\<open>String\<close>, \<open>Bool\<close>, \<open>Int\<close> and \<open>Int64\<close>, which read a number as
  \<open>strconv.ParseInt\<close> does with base 0, and \<open>Duration\<close>).  A declared flag is its name, whether it is a
  boolean flag, and what setting it does to the command's options.
\<close>

section \<open>Numbers\<close>

definition lower_char :: "char \<Rightarrow> char" where
  "lower_char c = (let n = of_char c :: nat in if 65 \<le> n \<and> n \<le> 90 then char_of (n + 32) else c)"

definition digit_of :: "char \<Rightarrow> int option" where
  "digit_of c =
     (if is_digit c then Some (digit_value c)
      else let n = of_char (lower_char c) :: nat in
        if 97 \<le> n \<and> n \<le> 122 then Some (int n - 87) else None)"

text \<open>The base prefix and the digits after it.\<close>

definition base_prefix :: "gostring \<Rightarrow> int \<times> gostring" where
  "base_prefix s =
     (if s = [] \<or> hd s \<noteq> CHR ''0'' then (10, s)
      else if length s \<ge> 3 \<and> lower_char (s ! 1) = CHR ''b'' then (2, drop 2 s)
      else if length s \<ge> 3 \<and> lower_char (s ! 1) = CHR ''o'' then (8, drop 2 s)
      else if length s \<ge> 3 \<and> lower_char (s ! 1) = CHR ''x'' then (16, drop 2 s)
      else (8, tl s))"

fun read_digits :: "int \<Rightarrow> int \<Rightarrow> gostring \<Rightarrow> int option" where
  "read_digits base n [] = Some n"
| "read_digits base n (c # s) =
     (if c = CHR ''_'' then read_digits base n s
      else case digit_of c of None \<Rightarrow> None
      | Some d \<Rightarrow> if d \<ge> base then None else read_digits base (n * base + d) s)"

text \<open>\<open>underscoreOK\<close>: underscores only between digits or after a base prefix.\<close>

datatype last_seen = NothingYet | Digit | Underscore | Other

fun underscores_ok :: "bool \<Rightarrow> last_seen \<Rightarrow> gostring \<Rightarrow> bool" where
  "underscores_ok hex saw [] = (saw \<noteq> Underscore)"
| "underscores_ok hex saw (c # s) =
     (if is_digit c \<or> hex \<and> lower_char c \<in> set ''abcdef'' then underscores_ok hex Digit s
      else if c = CHR ''_'' then saw = Digit \<and> underscores_ok hex Underscore s
      else saw \<noteq> Underscore \<and> underscores_ok hex Other s)"

definition underscoreOK :: "gostring \<Rightarrow> bool" where
  "underscoreOK s =
     (if length s \<ge> 2 \<and> hd s = CHR ''0'' \<and> lower_char (s ! 1) \<in> set ''box''
      then underscores_ok (lower_char (s ! 1) = CHR ''x'') Digit (drop 2 s)
      else underscores_ok False NothingYet s)"

text \<open>\<open>ParseInt(s, 0, 64)\<close>, \<open>None\<close> for either of its errors.\<close>

definition ParseInt0 :: "gostring \<Rightarrow> int option" where
  "ParseInt0 s =
     (let (neg, r) = split_sign s; (base, digits) = base_prefix r in
      if r = [] then None
      else case read_digits base 0 digits of
        None \<Rightarrow> None
      | Some n \<Rightarrow>
          let v = (if neg then - n else n) in
          if CHR ''_'' \<in> set digits \<and> \<not> underscoreOK r then None
          else if in_int64 v then Some v else None)"

section \<open>Flag sets\<close>

record 'o flag =
  flag_name :: gostring
  flag_bool :: bool
  flag_set :: "gostring \<Rightarrow> 'o \<Rightarrow> 'o option"

datatype flag_error =
    BadSyntax gostring
  | NotDefined gostring
  | HelpRequested
  | NeedsArgument gostring
  | InvalidValue gostring gostring

definition StringVar :: "gostring \<Rightarrow> (gostring \<Rightarrow> 'o \<Rightarrow> 'o) \<Rightarrow> 'o flag" where
  "StringVar name upd = \<lparr>flag_name = name, flag_bool = False, flag_set = (\<lambda>v o'. Some (upd v o'))\<rparr>"

definition IntVar :: "gostring \<Rightarrow> (int \<Rightarrow> 'o \<Rightarrow> 'o) \<Rightarrow> 'o flag" where
  "IntVar name upd = \<lparr>flag_name = name, flag_bool = False,
     flag_set = (\<lambda>v o'. case ParseInt0 v of None \<Rightarrow> None | Some n \<Rightarrow> Some (upd n o'))\<rparr>"

definition DurationVar :: "gostring \<Rightarrow> (duration \<Rightarrow> 'o \<Rightarrow> 'o) \<Rightarrow> 'o flag" where
  "DurationVar name upd = \<lparr>flag_name = name, flag_bool = False,
     flag_set = (\<lambda>v o'. case ParseDuration v of None \<Rightarrow> None | Some d \<Rightarrow> Some (upd d o'))\<rparr>"

definition BoolVar :: "gostring \<Rightarrow> (bool \<Rightarrow> 'o \<Rightarrow> 'o) \<Rightarrow> 'o flag" where
  "BoolVar name upd = \<lparr>flag_name = name, flag_bool = True,
     flag_set = (\<lambda>v o'. case ParseBool v of None \<Rightarrow> None | Some b \<Rightarrow> Some (upd b o'))\<rparr>"

text \<open>The name of an argument \<open>-name\<close> or \<open>--name=value\<close>, and the value after the first equals sign.\<close>

definition split_value :: "gostring \<Rightarrow> gostring \<times> gostring option" where
  "split_value s =
     (let n = hd s # takeWhile (\<lambda>c. c \<noteq> CHR ''='') (tl s); r = drop (length n) s
      in (n, if r = [] then None else Some (tl r)))"

text \<open>The value of a flag: its own, \<open>true\<close> for a boolean flag without one, or the next argument.\<close>

definition flag_value :: "'o flag \<Rightarrow> gostring option \<Rightarrow> gostring list \<Rightarrow> (gostring \<times> gostring list) option" where
  "flag_value f v rest =
     (case v of Some x \<Rightarrow> Some (x, rest)
      | None \<Rightarrow> if flag_bool f then Some (''true'', rest)
                 else (case rest of [] \<Rightarrow> None | x # xs \<Rightarrow> Some (x, xs)))"

definition parseOne :: "'o flag list \<Rightarrow> gostring \<Rightarrow> gostring list \<Rightarrow> 'o \<Rightarrow> flag_error + 'o \<times> gostring list" where
  "parseOne fs s args opts =
     (let body = (if s ! 1 = CHR ''-'' then drop 2 s else tl s) in
      if hd body = CHR ''-'' \<or> hd body = CHR ''='' then Inl (BadSyntax s)
      else
        let (name, v) = split_value body in
        case find (\<lambda>f. flag_name f = name) fs of
          None \<Rightarrow> Inl (if name = ''help'' \<or> name = ''h'' then HelpRequested else NotDefined name)
        | Some f \<Rightarrow>
            case flag_value f v args of
              None \<Rightarrow> Inl (NeedsArgument name)
            | Some (x, rest) \<Rightarrow>
                case flag_set f x opts of
                  None \<Rightarrow> Inl (InvalidValue name x)
                | Some opts' \<Rightarrow> Inr (opts', rest))"

lemma parseOne_Inr:
  assumes "parseOne fs s args opts = Inr (opts', rest)"
  obtains f x where "f \<in> set fs" and "flag_set f x opts = Some opts'" and "length rest \<le> length args"
proof -
  obtain f v x where f: "find (\<lambda>f. flag_name f = fst (split_value (if s ! 1 = CHR ''-'' then drop 2 s else tl s))) fs = Some f"
    and x: "flag_value f v args = Some (x, rest)" "flag_set f x opts = Some opts'"
    using assms by (simp add: parseOne_def Let_def split: if_splits option.splits prod.splits)
  have "f \<in> set fs" using f by (auto simp: find_Some_iff)
  moreover have "length rest \<le> length args"
    using x(1) by (auto simp: flag_value_def split: option.splits if_splits list.splits)
  ultimately show thesis using that x(2) by blast
qed

function flag_Parse :: "'o flag list \<Rightarrow> gostring list \<Rightarrow> 'o \<Rightarrow> flag_error + 'o \<times> gostring list" where
  "flag_Parse fs [] opts = Inr (opts, [])"
| "flag_Parse fs (s # args) opts =
     (if length s < 2 \<or> hd s \<noteq> CHR ''-'' then Inr (opts, s # args)
      else if s = ''--'' then Inr (opts, args)
      else case parseOne fs s args opts of
        Inl err \<Rightarrow> Inl err
      | Inr (opts', rest) \<Rightarrow> flag_Parse fs rest opts')"
  by pat_completeness auto
termination
  by (relation "measure (\<lambda>(fs, args, opts). length args)") (auto elim: parseOne_Inr)

text \<open>A flag given as \<open>--name value\<close> sets its value and the rest is parsed.\<close>

lemma split_value_plain:
  assumes "name \<noteq> []" and "CHR ''='' \<notin> set name"
  shows "split_value name = (name, None)"
proof -
  obtain c s where name: "name = c # s" using assms(1) by (cases name) auto
  have "takeWhile (\<lambda>c. c \<noteq> CHR ''='') s = s" using assms(2) name by (auto simp: takeWhile_eq_all_conv)
  then show ?thesis unfolding split_value_def name by (simp only: list.sel Let_def) simp
qed

lemma flag_Parse_setting:
  assumes "find (\<lambda>f. flag_name f = name) fs = Some f" and "\<not> flag_bool f" and "name \<noteq> []"
    and "hd name \<noteq> CHR ''-''" "CHR ''='' \<notin> set name" and "flag_set f x opts = Some opts'"
  shows "flag_Parse fs ((CHR ''-'' # CHR ''-'' # name) # x # rest) opts = flag_Parse fs rest opts'"
proof -
  have "hd name \<noteq> CHR ''=''" using assms(3,5) by (cases name) auto
  then show ?thesis using assms split_value_plain [OF assms(3,5)] by (simp add: parseOne_def flag_value_def)
qed

text \<open>What every successful setting keeps, a successful parse keeps.\<close>

lemma flag_Parse_invariant:
  assumes "\<And>f x o1 o2. f \<in> set fs \<Longrightarrow> flag_set f x o1 = Some o2 \<Longrightarrow> P o1 \<Longrightarrow> P o2"
  shows "flag_Parse fs args opts = Inr (opts', rest) \<Longrightarrow> P opts \<Longrightarrow> P opts'"
  using assms
proof (induction fs args opts rule: flag_Parse.induct)
  case (2 fs s args opts)
  then show ?case by (fastforce split: if_splits sum.splits elim: parseOne_Inr)
qed auto

text \<open>A number written in decimal is read back.\<close>

lemma digit_of_char: "d < 10 \<Longrightarrow> digit_of (digit_char d) = Some (int d)"
  by (simp add: digit_of_def is_digit_char digit_value_char)

lemma digit_char_underscore: "d < 10 \<Longrightarrow> digit_char d \<noteq> CHR ''_''"
  using is_digit_char [of d] by (auto simp: is_digit_def)

lemma read_digits_append:
  "read_digits base n (s @ t) = (case read_digits base n s of None \<Rightarrow> None | Some m \<Rightarrow> read_digits base m t)"
  by (induction base n s rule: read_digits.induct) (auto split: option.splits)

lemma read_digits_base_10: "read_digits 10 0 (digits_base 10 n) = Some (int n)"
proof (induction "10 :: nat" n rule: digits_base.induct)
  case (1 n)
  show ?case
  proof (cases "n < 10")
    case True
    then show ?thesis by (subst digits_base.simps) (simp add: digit_char_underscore digit_of_char)
  next
    case False
    then have "read_digits 10 0 (digits_base 10 (n div 10)) = Some (int (n div 10))" using 1 by simp
    moreover have "int (n div 10) * 10 + int (n mod 10) = int n" by presburger
    ultimately show ?thesis using False
      by (subst digits_base.simps) (simp add: read_digits_append digit_char_underscore digit_of_char)
  qed
qed

lemma digits_base_10_chars: "c \<in> set (digits_base 10 n) \<Longrightarrow> is_digit c"
proof (induction "10 :: nat" n rule: digits_base.induct)
  case (1 n)
  then show ?case by (subst (asm) (2) digits_base.simps) (auto simp: is_digit_char split: if_splits)
qed

lemma hd_digits_base_10: "0 < n \<Longrightarrow> hd (digits_base 10 n) \<noteq> CHR ''0''"
proof (induction "10 :: nat" n rule: digits_base.induct)
  case (1 n)
  show ?case
  proof (cases "n < 10")
    case True
    then have "of_char (digit_char n) \<noteq> (48 :: nat)" using 1(2) of_char_digit_char [of n] by simp
    then show ?thesis using True by (subst digits_base.simps) auto
  next
    case False
    then show ?thesis using 1(1) by (subst digits_base.simps) simp
  qed
qed

lemma ParseInt0_Itoa: "in_int64 n \<Longrightarrow> ParseInt0 (Itoa n) = Some n"
proof (cases "n = 0")
  case True
  have "Itoa 0 = ''0''" by code_simp
  then show "in_int64 n \<Longrightarrow> ?thesis" using True by (simp add: ParseInt0_def split_sign_def base_prefix_def)
next
  case False
  assume n: "in_int64 n"
  let ?d = "digits_base 10 (nat \<bar>n\<bar>)"
  have "base_prefix ?d = (10, ?d)" using hd_digits_base_10 [of "nat \<bar>n\<bar>"] False by (simp add: base_prefix_def)
  moreover have "CHR ''_'' \<notin> set ?d" using digits_base_10_chars by (fastforce simp: is_digit_def)
  ultimately show ?thesis using n by (auto simp: ParseInt0_def split_sign_Itoa read_digits_base_10)
qed

end
