(* ===== verification/Benchmark_Result.thy ===== *)
theory Benchmark_Result
  imports Float64 "HOL-Library.AList" "HOL-Library.Multiset"
begin

text \<open>
  \<open>internal/benchmark/result.go\<close>: what the load generators record and how it is summarized.  A
  \<open>float64\<close> is its rational value, every operation is rounded by \<open>f64\<close>.  The maps of counts are
  association lists with one entry per key.  The JSON encoder and decoder are arguments of \<open>Encode\<close> and
  \<open>Decode\<close>, which add the checks of the source.
\<close>

section \<open>Data\<close>

definition SchemaVersion :: int where "SchemaVersion = 1"

record Sample =
  sm_latency :: int
  sm_status :: int
  sm_transport_error :: bool
  sm_headers_valid :: bool
  sm_upstream :: gostring

record LatencySummary =
  ls_min :: rat
  ls_mean :: rat
  ls_p50 :: rat
  ls_p95 :: rat
  ls_p99 :: rat
  ls_max :: rat

type_synonym counts = "(gostring \<times> int) list"

record Verification =
  vf_passed :: bool
  vf_checks :: "(gostring \<times> bool) list"
  vf_accepted :: int
  vf_denied :: int
  vf_maximum :: int
  vf_upstreams :: int

record Result =
  rs_version :: int
  rs_tool :: gostring
  rs_scenario :: gostring
  rs_started :: int
  rs_target :: gostring
  rs_requests :: int
  rs_warmup :: int
  rs_concurrency :: int
  rs_instances :: int
  rs_duration_ms :: rat
  rs_throughput :: rat
  rs_latency :: LatencySummary
  rs_statuses :: counts
  rs_transport_errors :: int
  rs_http_errors :: int
  rs_error_rate :: rat
  rs_rate_limited :: int
  rs_upstreams :: counts
  rs_verification :: "Verification option"
  rs_environment :: "(gostring \<times> gostring) list"
  rs_samples :: "Sample list"

record Metadata =
  md_tool :: gostring
  md_scenario :: gostring
  md_target :: gostring
  md_warmup :: int
  md_concurrency :: int
  md_instances :: int
  md_started :: int
  md_duration :: duration
  md_environment :: "(gostring \<times> gostring) list"

section \<open>Latency\<close>

definition toMilliseconds :: "int \<Rightarrow> rat" where
  "toMilliseconds v = f64 (f64 (of_int v) / 1000)"

definition percentile :: "int list \<Rightarrow> rat \<Rightarrow> int" where
  "percentile ranked quantile =
     (if ranked = [] then 0
      else
        let index = \<lceil>f64 (quantile * f64 (of_int (int (length ranked))))\<rceil> - 1;
            index1 = (if index < 0 then 0 else index);
            index2 = (if index1 \<ge> int (length ranked) then int (length ranked) - 1 else index1)
        in ranked ! nat index2)"

definition SummarizeLatency :: "int list \<Rightarrow> LatencySummary" where
  "SummarizeLatency values =
     (if values = [] then \<lparr>ls_min = 0, ls_mean = 0, ls_p50 = 0, ls_p95 = 0, ls_p99 = 0, ls_max = 0\<rparr>
      else
        let ranked = sort values;
            total = fold (\<lambda>v t. wrap64 (t + v)) ranked 0
        in \<lparr>ls_min = toMilliseconds (ranked ! 0),
            ls_mean = f64 (toMilliseconds total / f64 (of_int (int (length ranked)))),
            ls_p50 = toMilliseconds (percentile ranked (f64 (50 / 100))),
            ls_p95 = toMilliseconds (percentile ranked (f64 (95 / 100))),
            ls_p99 = toMilliseconds (percentile ranked (f64 (99 / 100))),
            ls_max = toMilliseconds (ranked ! (length ranked - 1))\<rparr>)"

section \<open>Results\<close>

text \<open>\<open>m[key]++\<close>\<close>

definition bump :: "gostring \<Rightarrow> counts \<Rightarrow> counts" where
  "bump key m = AList.update key ((case map_of m key of None \<Rightarrow> 0 | Some n \<Rightarrow> n) + 1) m"

record tally =
  ta_statuses :: counts
  ta_upstreams :: counts
  ta_transport :: int
  ta_http :: int
  ta_limited :: int

definition count_sample :: "Sample \<Rightarrow> tally \<Rightarrow> tally" where
  "count_sample s t =
     (let t1 = (if sm_transport_error s then t\<lparr>ta_transport := ta_transport t + 1\<rparr>
                else t\<lparr>ta_statuses := bump (Itoa (sm_status s)) (ta_statuses t)\<rparr>);
          t2 = (if sm_status s \<ge> 400 then t1\<lparr>ta_http := ta_http t1 + 1\<rparr> else t1);
          t3 = (if sm_status s = 429 then t2\<lparr>ta_limited := ta_limited t2 + 1\<rparr> else t2)
      in if sm_upstream s \<noteq> [] then t3\<lparr>ta_upstreams := bump (sm_upstream s) (ta_upstreams t3)\<rparr> else t3)"

definition tally_samples :: "Sample list \<Rightarrow> tally" where
  "tally_samples samples =
     fold count_sample samples \<lparr>ta_statuses = [], ta_upstreams = [], ta_transport = 0, ta_http = 0, ta_limited = 0\<rparr>"

text \<open>\<open>time.Duration.Seconds\<close>: the whole seconds and the rest are converted separately.\<close>

definition duration_seconds :: "duration \<Rightarrow> rat" where
  "duration_seconds d =
     f64 (f64 (of_int (d sdiv time_Second)) + f64 (f64 (of_int (d smod time_Second)) / 1000000000))"

definition NewResult :: "Metadata \<Rightarrow> Sample list \<Rightarrow> Result" where
  "NewResult md samples =
     (let t = tally_samples samples;
          n = int (length samples);
          seconds = duration_seconds (md_duration md);
          throughput = (if seconds > 0 then f64 (f64 (of_int n) / seconds) else 0);
          errorRate = (if n > 0
            then f64 (f64 (100 * f64 (of_int (ta_transport t + ta_http t))) / f64 (of_int n)) else 0)
      in \<lparr>rs_version = SchemaVersion, rs_tool = md_tool md, rs_scenario = md_scenario md, rs_started = md_started md,
          rs_target = md_target md, rs_requests = n, rs_warmup = md_warmup md, rs_concurrency = md_concurrency md,
          rs_instances = md_instances md, rs_duration_ms = f64 (f64 (of_int (md_duration md sdiv 1000)) / 1000),
          rs_throughput = throughput, rs_latency = SummarizeLatency (map sm_latency samples),
          rs_statuses = ta_statuses t, rs_transport_errors = ta_transport t, rs_http_errors = ta_http t,
          rs_error_rate = errorRate, rs_rate_limited = ta_limited t, rs_upstreams = ta_upstreams t,
          rs_verification = None, rs_environment = md_environment md, rs_samples = samples\<rparr>)"

definition Encode :: "(Result \<Rightarrow> gostring result) \<Rightarrow> Result \<Rightarrow> gostring result" where
  "Encode json_encode r =
     (case json_encode r of Inl err \<Rightarrow> Inl (''encode benchmark result: '' @ err) | Inr text \<Rightarrow> Inr text)"

definition Decode :: "(gostring \<Rightarrow> Result result) \<Rightarrow> gostring \<Rightarrow> Result result" where
  "Decode json_decode text =
     (case json_decode text of
        Inl err \<Rightarrow> Inl (''decode benchmark result: '' @ err)
      | Inr r \<Rightarrow>
          if rs_version r \<noteq> SchemaVersion then Inl (''unsupported benchmark schema version '' @ Itoa (rs_version r))
          else if rs_tool r = [] \<or> rs_scenario r = [] \<or> rs_requests r \<le> 0
            then Inl ''benchmark result is missing required metadata''
          else Inr r)"

section \<open>The quantiles in double precision\<close>

lemma expo_unique:
  assumes "2 powi e \<le> x" and "x < 2 powi (e + 1)"
  shows "expo x = e"
proof -
  have x: "0 < x" using assms(1) by (rule less_le_trans [rotated]) simp
  have "(2 :: rat) powi e < 2 powi (expo x + 1)" "(2 :: rat) powi expo x < 2 powi (e + 1)"
    using expo_bounds [OF x] assms by linarith+
  then have "e < expo x + 1" "expo x < e + 1"
    by (metis not_less one_le_numeral power_int_increasing)+
  then show ?thesis by simp
qed

lemma f64_below_one:
  assumes "1 / 2 \<le> x" and "x < 1"
  shows "f64 x = of_int (round_even (x * 2 ^ 53)) / 2 ^ 53"
proof -
  have "expo x = - 1" using assms by (intro expo_unique) (simp_all add: power_int_minus)
  then have e: "expo x - 52 = - 53" by simp
  have u: "(2 :: rat) powi (- 53) = inverse (2 ^ 53)" by (simp only: power_int_minus power_int_numeral)
  have "f64 x = of_int (round_even (x / 2 powi (expo x - 52))) * 2 powi (expo x - 52)"
    by (rule f64_pos) (use assms(1) in linarith)
  then show ?thesis unfolding e u by (simp only: divide_inverse inverse_inverse_eq)
qed

lemma round_even_near:
  assumes "\<bar>x - of_int n\<bar> < 1 / 2"
  shows "round_even x = n"
proof -
  have "\<bar>of_int (round_even x) - of_int n :: rat\<bar> < 1" using round_even_err [of x] assms by linarith
  then show ?thesis by linarith
qed

lemma f64_quantile:
  "f64 (1 / 2) = 1 / 2" "f64 (19 / 20) = 8556839292003942 / 2 ^ 53" "f64 (99 / 100) = 8917127262193582 / 2 ^ 53"
proof -
  have "round_even (1 / 2 * 2 ^ 53) = 2 ^ 52" "round_even (19 / 20 * 2 ^ 53) = 8556839292003942"
    "round_even (99 / 100 * 2 ^ 53) = 8917127262193582"
    by (rule round_even_near; simp)+
  then show "f64 (1 / 2) = 1 / 2" "f64 (19 / 20) = 8556839292003942 / 2 ^ 53" "f64 (99 / 100) = 8917127262193582 / 2 ^ 53"
    by (subst f64_below_one; simp)+
qed

text \<open>A quantile and its nearest double, which is never above it.\<close>

definition quantile_double :: "int \<Rightarrow> rat \<Rightarrow> bool" where
  "quantile_double p q \<longleftrightarrow> 0 < p \<and> p \<le> 100 \<and> q \<le> of_int p / 100 \<and> of_int p / 100 - 1 / 2 ^ 53 \<le> q"

lemma quantile_doubles:
  "quantile_double 50 (f64 (50 / 100))" "quantile_double 95 (f64 (95 / 100))" "quantile_double 99 (f64 (99 / 100))"
  by (simp_all add: quantile_double_def f64_quantile)

lemma rank_bounds:
  assumes "0 < a" and "a \<le> 100 * n"
  shows "\<lceil>of_int a / 100 :: rat\<rceil> \<le> n" and "0 < \<lceil>of_int a / 100 :: rat\<rceil>"
proof -
  have "(of_int a :: rat) \<le> of_int (100 * n)" using assms(2) by (simp only: of_int_le_iff)
  then show "\<lceil>of_int a / 100 :: rat\<rceil> \<le> n" by (simp add: ceiling_le_iff)
  have "(0 :: rat) < of_int a / 100" using assms(1) by simp
  then show "0 < \<lceil>of_int a / 100 :: rat\<rceil>" by (simp only: zero_less_ceiling)
qed

lemma rank_exact:
  assumes q: "quantile_double p q" and n: "0 < n" "n \<le> 2 ^ 40"
  shows "\<lceil>f64 (q * f64 (of_int n))\<rceil> = \<lceil>of_int (p * n) / 100 :: rat\<rceil>"
proof -
  define x c where "x = (of_int (p * n) / 100 :: rat)" and "c = \<lceil>x\<rceil>"
  have fn: "f64 (of_int n) = of_int n" using n by (intro f64_of_int) auto
  have nr: "0 < (of_int n :: rat)" "(of_int n :: rat) \<le> 2 ^ 40"
    using n by (simp_all only: of_int_0_less_iff, metis of_int_le_iff of_int_numeral of_int_power)
  have q0: "0 \<le> q" "q \<le> 1"
    using q unfolding quantile_double_def by (auto simp: field_simps)
  have le: "q * of_int n \<le> x"
    using mult_right_mono [of q "of_int p / 100" "of_int n"] q nr unfolding quantile_double_def x_def by simp
  have ge: "x - of_int n / 2 ^ 53 \<le> q * of_int n"
    using mult_right_mono [of "of_int p / 100 - 1 / 2 ^ 53" q "of_int n"] q nr
    unfolding quantile_double_def x_def by (simp add: left_diff_distrib)
  have pn: "p * n \<le> 100 * n" "0 < p * n" using q n unfolding quantile_double_def by simp_all
  have c: "c \<le> n" "0 < c" using rank_bounds [OF pn(2,1)] by (simp_all add: c_def x_def)
  have "q * of_int n \<le> of_int c" using le le_of_int_ceiling [of x] unfolding c_def by linarith
  then have "f64 (q * of_int n) \<le> f64 (of_int c)" using q0 nr by (intro f64_mono) simp_all
  moreover have "f64 (of_int c) = of_int c" using c n by (intro f64_of_int) auto
  moreover have "of_int (c - 1) < f64 (q * of_int n)"
  proof -
    have "of_int (c - 1) < x" using ceiling_correct [of x] by (simp add: c_def)
    then have "(of_int (100 * (c - 1)) :: rat) < of_int (p * n)" by (simp add: x_def)
    then have "100 * (c - 1) + 1 \<le> p * n" by (simp only: of_int_less_iff)
    then have "of_int (100 * (c - 1) + 1) \<le> (of_int (p * n) :: rat)" by (simp only: of_int_le_iff)
    then have gap: "of_int (c - 1) + 1 / 100 \<le> x" by (simp add: x_def)
    have "\<bar>f64 (q * of_int n) - q * of_int n\<bar> \<le> q * of_int n / 2 ^ 53" using q0 nr by (intro f64_err) simp
    moreover have "q * of_int n \<le> of_int n" using q0 nr by (simp add: mult_le_cancel_right2)
    then have "q * of_int n / 2 ^ 53 \<le> of_int n / 2 ^ 53" by (intro divide_right_mono) simp_all
    ultimately have "q * of_int n - of_int n / 2 ^ 53 \<le> f64 (q * of_int n)" unfolding abs_le_iff by linarith
    moreover have "of_int n / 2 ^ 53 \<le> (1 / 2 ^ 13 :: rat)" using nr(2) by (simp add: field_simps)
    ultimately show ?thesis using ge gap by simp
  qed
  ultimately have "\<lceil>f64 (q * of_int n)\<rceil> = c" by (intro ceiling_unique) simp_all
  then show ?thesis by (simp only: fn c_def x_def)
qed

lemma percentile_rank:
  assumes "quantile_double p q" and "xs \<noteq> []" and "length xs \<le> 2 ^ 40"
  shows "percentile xs q = xs ! nat (\<lceil>of_int (p * int (length xs)) / 100 :: rat\<rceil> - 1)"
    and "nat (\<lceil>of_int (p * int (length xs)) / 100 :: rat\<rceil> - 1) < length xs"
    and "1 \<le> \<lceil>of_int (p * int (length xs)) / 100 :: rat\<rceil>"
proof -
  let ?n = "int (length xs)" and ?c = "\<lceil>of_int (p * int (length xs)) / 100 :: rat\<rceil>"
  have n: "0 < ?n" "?n \<le> 2 ^ 40" using assms(2,3) by simp_all
  have p: "0 < p" "p \<le> 100" using assms(1) by (simp_all add: quantile_double_def)
  have "0 < p * ?n" "p * ?n \<le> 100 * ?n" using p n by simp_all
  then have c: "0 < ?c" "?c \<le> ?n" by (rule rank_bounds)+
  then show "1 \<le> ?c" "nat (?c - 1) < length xs" by linarith+
  show "percentile xs q = xs ! nat (?c - 1)"
    using assms(2) c unfolding percentile_def rank_exact [OF assms(1) n] Let_def by simp
qed

section \<open>Properties of the summary\<close>

lemma sorted_count_le:
  assumes "sorted xs" and "k < length xs"
  shows "Suc k \<le> length (filter (\<lambda>x. x \<le> xs ! k) xs)" and "length (filter (\<lambda>x. x < xs ! k) xs) \<le> k"
proof -
  have "filter (\<lambda>x. x \<le> xs ! k) (take (Suc k) xs) = take (Suc k) xs"
    using assms by (auto simp: in_set_conv_nth intro!: filter_True sorted_nth_mono)
  then have "length (take (Suc k) xs) \<le> length (filter (\<lambda>x. x \<le> xs ! k) (take (Suc k) xs @ drop (Suc k) xs))"
    by (simp only: filter_append length_append)
  then show "Suc k \<le> length (filter (\<lambda>x. x \<le> xs ! k) xs)" using assms(2) by simp
  have "filter (\<lambda>x. x < xs ! k) (drop k xs) = []"
    using assms by (auto simp: filter_empty_conv in_set_conv_nth not_less intro!: sorted_nth_mono)
  then have "length (filter (\<lambda>x. x < xs ! k) (take k xs @ drop k xs)) \<le> length (take k xs)"
    by (simp only: filter_append length_append append_Nil2 length_filter_le)
  then show "length (filter (\<lambda>x. x < xs ! k) xs) \<le> k" using assms(2) by simp
qed

lemma length_filter_sort: "length (filter P (sort xs)) = length (filter P (xs :: int list))"
  by (metis mset_filter mset_sort size_mset)

text \<open>
  C29. Percentiles are nearest-rank percentiles: computed in doubles, the rank is exact for up to \<open>2 ^ 40\<close>
  samples, and the reported latency is a measured one such that at least 50, 95 or 99 percent of the
  samples are not above it, and fewer are below it.
\<close>

theorem percentile_nearest_rank:
  assumes "(p, q) \<in> {(50, f64 (50 / 100)), (95, f64 (95 / 100)), (99, f64 (99 / 100))}"
    and "values \<noteq> []" and "length values \<le> 2 ^ 40"
  shows "percentile (sort values) q \<in> set values
    \<and> p * int (length values) \<le> 100 * int (length (filter (\<lambda>x. x \<le> percentile (sort values) q) values))
    \<and> 100 * int (length (filter (\<lambda>x. x < percentile (sort values) q) values)) < p * int (length values)"
proof -
  have q: "quantile_double p q" using assms(1) quantile_doubles by auto
  define xs where "xs = sort values"
  define a where "a = p * int (length xs)"
  have xs: "xs \<noteq> []" "length xs \<le> 2 ^ 40" "sorted xs" "length xs = length values"
    using assms(2,3) by (auto simp: xs_def dest: arg_cong [where f = length])
  define c where "c = \<lceil>of_int a / 100 :: rat\<rceil>"
  note rank = percentile_rank [OF q xs(1,2), folded a_def, folded c_def]
  note count = sorted_count_le [OF xs(3) rank(2), folded rank(1)]
  have "of_int a / 100 \<le> (of_int c :: rat)" "of_int (c - 1) < (of_int a / 100 :: rat)"
    using ceiling_correct [of "of_int a / 100 :: rat"] by (simp_all add: c_def)
  then have "of_int a \<le> (of_int (100 * c) :: rat)" "of_int (100 * (c - 1)) < (of_int a :: rat)" by simp_all
  then have a: "a \<le> 100 * c" "100 * (c - 1) < a" by (simp_all only: of_int_le_iff of_int_less_iff)
  have "c \<le> int (length (filter (\<lambda>x. x \<le> percentile xs q) values))"
    "int (length (filter (\<lambda>x. x < percentile xs q) values)) \<le> c - 1"
    using count rank(3) by (simp_all add: xs_def length_filter_sort)
  moreover have "percentile xs q \<in> set values"
    using nth_mem [OF rank(2)] rank(1) by (simp add: xs_def)
  ultimately show ?thesis using a by (simp add: xs(4) flip: xs_def a_def) (simp add: a_def xs(4))
qed

theorem percentile_nearest_rank_witness:
  "percentile (sort [30, 10, 20]) (f64 (50 / 100)) \<in> {10, 20, 30}
   \<and> 50 * 3 \<le> 100 * int (length (filter (\<lambda>x. x \<le> percentile (sort [30, 10, 20]) (f64 (50 / 100))) [30, 10, 20]))"
  using percentile_nearest_rank [of 50 "f64 (50 / 100)" "[30, 10, 20]"] by auto

lemma toMilliseconds_mono: "0 \<le> v \<Longrightarrow> v \<le> w \<Longrightarrow> toMilliseconds v \<le> toMilliseconds w"
proof -
  assume v: "0 \<le> v" "v \<le> w"
  have "f64 0 \<le> f64 (of_int v)" "f64 (of_int v) \<le> f64 (of_int w)" using v by (intro f64_mono; simp)+
  then have "0 \<le> f64 (of_int v) / 1000" "f64 (of_int v) / 1000 \<le> f64 (of_int w) / 1000"
    by (simp_all add: divide_right_mono)
  then show ?thesis unfolding toMilliseconds_def by (rule f64_mono)
qed

lemma percentile_mono:
  assumes "quantile_double p q" and "quantile_double p' q'" and "p \<le> p'" and "xs \<noteq> []" and "length xs \<le> 2 ^ 40" and "sorted xs"
  shows "percentile xs q \<le> percentile xs q'"
proof -
  have "p * int (length xs) \<le> p' * int (length xs)" by (rule mult_right_mono [OF assms(3)]) simp
  then have "(of_int (p * int (length xs)) :: rat) \<le> of_int (p' * int (length xs))" by (simp only: of_int_le_iff)
  then have "of_int (p * int (length xs)) / 100 \<le> (of_int (p' * int (length xs)) / 100 :: rat)"
    by (rule divide_right_mono) simp
  then have "nat (\<lceil>of_int (p * int (length xs)) / 100 :: rat\<rceil> - 1) \<le> nat (\<lceil>of_int (p' * int (length xs)) / 100 :: rat\<rceil> - 1)"
    by (intro nat_mono diff_right_mono ceiling_mono)
  then show ?thesis
    unfolding percentile_rank(1) [OF assms(1,4,5)] percentile_rank(1) [OF assms(2,4,5)]
    by (rule sorted_nth_mono [OF assms(6) _ percentile_rank(2) [OF assms(2,4,5)]])
qed

text \<open>
  The summary is consistent: minimum, median, 95th and 99th percentile and maximum are in order, the
  outer two are the smallest and largest measured latency, and the order of the samples does not matter.
\<close>

theorem latency_summary_ordered:
  assumes "values \<noteq> []" and "\<forall>v\<in>set values. 0 \<le> v" and "length values \<le> 2 ^ 40" and "s = SummarizeLatency values"
    and "mset values = mset values'"
  shows "ls_min s \<le> ls_p50 s \<and> ls_p50 s \<le> ls_p95 s \<and> ls_p95 s \<le> ls_p99 s \<and> ls_p99 s \<le> ls_max s
    \<and> ls_min s = toMilliseconds (Min (set values)) \<and> ls_max s = toMilliseconds (Max (set values))
    \<and> SummarizeLatency values' = s"
proof -
  define xs where "xs = sort values"
  have xs: "xs \<noteq> []" "length xs \<le> 2 ^ 40" "sorted xs" "set xs = set values"
    using assms(1,3) by (auto simp: xs_def dest: arg_cong [where f = length])
  note q = quantile_doubles
  have in_range: "xs ! 0 \<le> xs ! k \<and> xs ! k \<le> xs ! (length xs - 1) \<and> 0 \<le> xs ! k" if "k < length xs" for k
    using that xs assms(2) nth_mem [OF that] by (auto intro!: sorted_nth_mono)
  have pc: "0 \<le> percentile xs r \<and> xs ! 0 \<le> percentile xs r \<and> percentile xs r \<le> xs ! (length xs - 1)"
    if "quantile_double p r" for p r
    using in_range [OF percentile_rank(2) [OF that xs(1,2)]] unfolding percentile_rank(1) [OF that xs(1,2)] by simp
  have s: "s = \<lparr>ls_min = toMilliseconds (xs ! 0), ls_mean = ls_mean s, ls_p50 = toMilliseconds (percentile xs (f64 (50 / 100))),
      ls_p95 = toMilliseconds (percentile xs (f64 (95 / 100))), ls_p99 = toMilliseconds (percentile xs (f64 (99 / 100))),
      ls_max = toMilliseconds (xs ! (length xs - 1))\<rparr>"
    using assms(1) unfolding assms(4) SummarizeLatency_def Let_def xs_def by simp
  have "xs ! 0 = Min (set values)" "xs ! (length xs - 1) = Max (set values)"
    using in_range xs(1) unfolding xs(4) [symmetric]
    by (auto intro!: Min_eqI [symmetric] Max_eqI [symmetric] nth_mem simp: in_set_conv_nth [of _ xs] dest!: in_set_conv_nth [THEN iffD1])
  moreover have "SummarizeLatency values' = s"
  proof -
    have "sort values' = sort values" using assms(5) by (metis mset_sort properties_for_sort sorted_sort)
    moreover have "values' \<noteq> []" using assms(1,5) by auto
    ultimately show ?thesis using assms(1) unfolding assms(4) SummarizeLatency_def by simp
  qed
  moreover have "ls_min s \<le> ls_p50 s" "ls_p99 s \<le> ls_max s" "ls_p50 s \<le> ls_p95 s" "ls_p95 s \<le> ls_p99 s"
    using pc [OF q(1)] pc [OF q(2)] pc [OF q(3)] in_range [of 0] xs(1)
      percentile_mono [OF q(1,2) _ xs(1-3)] percentile_mono [OF q(2,3) _ xs(1-3)]
    by (subst (1 2) s, simp add: toMilliseconds_mono)+
  ultimately show ?thesis by (subst (5 6) s) simp
qed

theorem latency_summary_ordered_witness:
  "ls_p95 (SummarizeLatency [3000, 1000, 2000]) \<le> ls_max (SummarizeLatency [3000, 1000, 2000])
   \<and> SummarizeLatency [1000, 2000, 3000] = SummarizeLatency [3000, 1000, 2000]"
  using latency_summary_ordered [of "[3000, 1000, 2000]" _ "[1000, 2000, 3000]", OF _ _ _ refl] by (auto intro: order_trans)

section \<open>Accounting\<close>

definition count_of :: "counts \<Rightarrow> gostring \<Rightarrow> int" where
  "count_of m key = (case map_of m key of None \<Rightarrow> 0 | Some n \<Rightarrow> n)"

lemma count_of_Nil [simp]: "count_of [] k = 0"
  by (simp add: count_of_def)

lemma count_of_bump: "count_of (bump key m) k = count_of m k + (if k = key then 1 else 0)"
  by (simp add: count_of_def bump_def AList.update_conv')

lemma sum_update: "sum_list (map snd (AList.update key v m)) = sum_list (map snd m) + (v - count_of m key)"
  by (induction m) (auto simp: count_of_def)

lemma sum_bump: "sum_list (map snd (bump key m)) = sum_list (map snd m) + 1"
  by (simp add: bump_def sum_update) (simp add: count_of_def)

lemma keys_bump: "fst ` set (bump key m) = insert key (fst ` set m)" "distinct (map fst m) \<Longrightarrow> distinct (map fst (bump key m))"
  by (simp_all add: bump_def distinct_update flip: dom_map_of_conv_image_fst) (simp add: AList.update_conv')

abbreviation samples_with :: "(Sample \<Rightarrow> bool) \<Rightarrow> Sample list \<Rightarrow> int" where
  "samples_with P samples \<equiv> int (length (filter P samples))"

lemma tally_snoc: "tally_samples (xs @ [x]) = count_sample x (tally_samples xs)"
  by (simp add: tally_samples_def)

lemma tally_exact:
  "ta_transport (tally_samples xs) = samples_with sm_transport_error xs"
  "ta_http (tally_samples xs) = samples_with (\<lambda>s. sm_status s \<ge> 400) xs"
  "ta_limited (tally_samples xs) = samples_with (\<lambda>s. sm_status s = 429) xs"
  "count_of (ta_statuses (tally_samples xs)) k = samples_with (\<lambda>s. \<not> sm_transport_error s \<and> Itoa (sm_status s) = k) xs"
  "sum_list (map snd (ta_statuses (tally_samples xs))) = samples_with (\<lambda>s. \<not> sm_transport_error s) xs"
  "distinct (map fst (ta_upstreams (tally_samples xs)))"
  "fst ` set (ta_upstreams (tally_samples xs)) = sm_upstream ` set xs - {[]}"
proof (induction xs rule: rev_induct)
  case Nil
  { case 1 show ?case by (simp add: tally_samples_def) }
  { case 2 show ?case by (simp add: tally_samples_def) }
  { case 3 show ?case by (simp add: tally_samples_def) }
  { case 4 show ?case by (simp add: tally_samples_def) }
  { case 5 show ?case by (simp add: tally_samples_def) }
  { case 6 show ?case by (simp add: tally_samples_def) }
  { case 7 show ?case by (simp add: tally_samples_def) }
next
  case (snoc x xs)
  note step = tally_snoc count_sample_def Let_def
  { case 1 show ?case using snoc(1) by (simp add: step) }
  { case 2 show ?case using snoc(2) by (simp add: step) }
  { case 3 show ?case using snoc(3) by (simp add: step) }
  { case 4 show ?case using snoc(4) by (simp add: step count_of_bump) }
  { case 5 show ?case using snoc(5) by (simp add: step sum_bump) }
  { case 6 show ?case using snoc(6) by (simp add: step keys_bump) }
  { case 7 show ?case using snoc(7) by (simp add: step keys_bump insert_Diff_if) }
qed

lemma partition_count: "samples_with P xs + samples_with (\<lambda>s. \<not> P s) xs = int (length xs)"
  using sum_length_filter_compl [of P xs] by linarith

lemma disjoint_count:
  "\<forall>s\<in>set xs. \<not> (P s \<and> Q s) \<Longrightarrow> samples_with P xs + samples_with Q xs \<le> int (length xs)"
  by (induction xs) auto

lemma percent_bound:
  assumes "0 \<le> e" and "e \<le> k * n" and "0 < n" and "n \<le> 2 ^ 40" and "0 \<le> k" and "k \<le> 2"
  shows "0 \<le> f64 (f64 (100 * f64 (of_int e)) / f64 (of_int n)) \<and> f64 (f64 (100 * f64 (of_int e)) / f64 (of_int n)) \<le> of_int (100 * k)"
proof -
  have "k * n \<le> 2 * 2 ^ 40" using assms(3-6) by (intro mult_mono) auto
  then have e: "e \<le> 2 ^ 41" using assms(2) by simp
  have fe: "f64 (of_int e) = of_int e" "f64 (of_int n) = of_int n" "f64 (of_int (100 * e)) = of_int (100 * e)"
    using assms e by (intro f64_of_int; simp)+
  have n: "0 < (of_int n :: rat)" using assms(3) by simp
  have "100 * e \<le> (100 * k) * n" using assms(2) by simp
  then have "(of_int (100 * e) :: rat) \<le> of_int (100 * k) * of_int n" by (simp only: of_int_le_iff flip: of_int_mult)
  then have le: "of_int (100 * e) / of_int n \<le> (of_int (100 * k) :: rat)" using n by (simp only: pos_divide_le_eq)
  have pos: "(0 :: rat) \<le> of_int (100 * e) / of_int n" using assms(1) n by simp
  have "f64 0 \<le> f64 (of_int (100 * e) / of_int n)" "f64 (of_int (100 * e) / of_int n) \<le> f64 (of_int (100 * k))"
    using pos le by (intro f64_mono; simp)+
  moreover have "f64 (of_int (100 * k)) = of_int (100 * k)" using assms(5,6) by (intro f64_of_int) auto
  ultimately show ?thesis using fe by simp
qed

text \<open>
  A result accounts for every sample: the per-status counts are exact and, with the transport errors,
  add up to the number of requests; rate-limited responses are among the HTTP errors; the error rate is
  a percentage, between 0 and 100, as long as no sample is both a transport and an HTTP error.
\<close>

theorem result_accounts_for_samples:
  assumes "r = NewResult md samples" and "samples \<noteq> []" and "length samples \<le> 2 ^ 40"
    and "\<forall>s\<in>set samples. \<not> (sm_transport_error s \<and> sm_status s \<ge> 400)"
  shows "rs_requests r = int (length samples)
    \<and> count_of (rs_statuses r) k = samples_with (\<lambda>s. \<not> sm_transport_error s \<and> Itoa (sm_status s) = k) samples
    \<and> sum_list (map snd (rs_statuses r)) + rs_transport_errors r = rs_requests r
    \<and> rs_rate_limited r \<le> rs_http_errors r
    \<and> 0 \<le> rs_error_rate r \<and> rs_error_rate r \<le> 100"
proof -
  let ?e = "samples_with sm_transport_error samples + samples_with (\<lambda>s. sm_status s \<ge> 400) samples"
  let ?n = "int (length samples)"
  have "?e \<le> 1 * ?n" using disjoint_count [OF assms(4)] by simp
  then have rate: "0 \<le> f64 (f64 (100 * f64 (of_int ?e)) / f64 (of_int ?n)) \<and> f64 (f64 (100 * f64 (of_int ?e)) / f64 (of_int ?n)) \<le> of_int (100 * 1)"
    using assms(2,3) by (intro percent_bound) auto
  have "length (filter (\<lambda>s. sm_status s = 429) samples) \<le> length (filter (\<lambda>s. sm_status s \<ge> 400) samples)"
    by (induction samples) auto
  moreover have "rs_error_rate r = f64 (f64 (100 * f64 (of_int ?e)) / f64 (of_int ?n))"
    using assms(2) by (simp add: assms(1) NewResult_def Let_def tally_exact)
  ultimately show ?thesis
    using rate partition_count [of sm_transport_error samples] by (simp add: assms(1) NewResult_def Let_def tally_exact)
qed

definition sample_metadata :: Metadata where
  "sample_metadata = \<lparr>md_tool = ''go-loadgen'', md_scenario = ''manual'', md_target = ''http://gw'', md_warmup = 0,
     md_concurrency = 1, md_instances = 1, md_started = 0, md_duration = 1000000000, md_environment = []\<rparr>"

definition sample_of :: "int \<Rightarrow> bool \<Rightarrow> Sample" where
  "sample_of code err = \<lparr>sm_latency = 1000, sm_status = code, sm_transport_error = err, sm_headers_valid = True, sm_upstream = []\<rparr>"

theorem result_accounts_for_samples_witness:
  "rs_requests (NewResult sample_metadata [sample_of 200 False, sample_of 0 True]) = 2
   \<and> rs_error_rate (NewResult sample_metadata [sample_of 200 False, sample_of 0 True]) \<le> 100"
  using result_accounts_for_samples [OF refl, of "[sample_of 200 False, sample_of 0 True]" sample_metadata]
  by (simp add: sample_of_def)

text \<open>
  A response whose body breaks off counts as a transport error and, by its status, as an HTTP error
  too: one such request makes an error rate of 200 percent.
\<close>

theorem broken_error_counted_twice:
  "rs_error_rate (NewResult sample_metadata [sample_of 500 True]) = 200"
proof -
  have "f64 2 = 2" "f64 200 = 200" "f64 1 = 1"
    using f64_of_int [of 2] f64_of_int [of 200] f64_of_int [of 1] by simp_all
  then show ?thesis by (simp add: NewResult_def Let_def tally_exact sample_of_def)
qed

end
