(* ===== verification/Load_Generator.thy ===== *)
theory Load_Generator
  imports Benchmark_Result Flag_Parser Http_Response
begin

text \<open>
  \<open>cmd/loadgen/main.go\<close>: the Go load generator.  Its options are read by the flag parser, one request
  is a function of what the HTTP client returned, the workers that share the job channel are a step
  relation, and \<open>verify\<close> is the check of a finished run.  What the HTTP client, the clock and the file
  system do are arguments.  Floating-point expressions are evaluated operation by operation, without
  fused multiply-add.
\<close>

section \<open>Options\<close>

record options =
  op_target :: gostring
  op_requests :: int
  op_concurrency :: int
  op_warmup :: int
  op_timeout :: duration
  op_output :: gostring
  op_scenario :: gostring
  op_instances :: int
  op_allowed :: "int list"
  op_min_upstreams :: int
  op_verify :: bool
  op_rate :: int
  op_burst :: int

text \<open>The flags with their defaults; the list of statuses is parsed after the flags.\<close>

definition default_options :: "options \<times> gostring" where
  "default_options =
    (\<lparr>op_target = ''http://127.0.0.1:8080/api/users'', op_requests = 2000, op_concurrency = 32, op_warmup = 100,
      op_timeout = 5 * time_Second, op_output = ''-'', op_scenario = ''manual'', op_instances = 1, op_allowed = [],
      op_min_upstreams = 0, op_verify = False, op_rate = 0, op_burst = 0\<rparr>, ''200'')"

definition loadgen_flags :: "(options \<times> gostring) flag list" where
  "loadgen_flags =
    [StringVar ''url'' (\<lambda>v (o', a). (o'\<lparr>op_target := v\<rparr>, a)),
     IntVar ''requests'' (\<lambda>v (o', a). (o'\<lparr>op_requests := v\<rparr>, a)),
     IntVar ''concurrency'' (\<lambda>v (o', a). (o'\<lparr>op_concurrency := v\<rparr>, a)),
     IntVar ''warmup'' (\<lambda>v (o', a). (o'\<lparr>op_warmup := v\<rparr>, a)),
     DurationVar ''timeout'' (\<lambda>v (o', a). (o'\<lparr>op_timeout := v\<rparr>, a)),
     StringVar ''output'' (\<lambda>v (o', a). (o'\<lparr>op_output := v\<rparr>, a)),
     StringVar ''scenario'' (\<lambda>v (o', a). (o'\<lparr>op_scenario := v\<rparr>, a)),
     IntVar ''instances'' (\<lambda>v (o', a). (o'\<lparr>op_instances := v\<rparr>, a)),
     StringVar ''allowed-statuses'' (\<lambda>v (o', a). (o', v)),
     IntVar ''min-upstreams'' (\<lambda>v (o', a). (o'\<lparr>op_min_upstreams := v\<rparr>, a)),
     BoolVar ''verify-rate-limit'' (\<lambda>v (o', a). (o'\<lparr>op_verify := v\<rparr>, a)),
     IntVar ''rate'' (\<lambda>v (o', a). (o'\<lparr>op_rate := v\<rparr>, a)),
     IntVar ''burst'' (\<lambda>v (o', a). (o'\<lparr>op_burst := v\<rparr>, a))]"

datatype options_error = BadFlag flag_error | BadOptions string | BadStatus gostring

fun parse_statuses :: "gostring list \<Rightarrow> options_error + int list" where
  "parse_statuses [] = Inr []"
| "parse_statuses (raw # rest) =
     (case Atoi (TrimSpace raw) of
        Inl err \<Rightarrow> Inl (BadStatus raw)
      | Inr code \<Rightarrow>
          if code < 100 \<or> code > 599 then Inl (BadStatus raw)
          else case parse_statuses rest of Inl err \<Rightarrow> Inl err | Inr ss \<Rightarrow> Inr (code # ss))"

definition parseOptions :: "gostring list \<Rightarrow> options_error + options" where
  "parseOptions arguments =
     (case flag_Parse loadgen_flags arguments default_options of
        Inl err \<Rightarrow> Inl (BadFlag err)
      | Inr ((opts, allowed), rest) \<Rightarrow>
          if rest \<noteq> [] then Inl (BadOptions ''unexpected positional arguments'')
          else if op_requests opts \<le> 0 \<or> op_concurrency opts \<le> 0 \<or> op_warmup opts < 0 \<or> op_timeout opts \<le> 0
              \<or> op_instances opts \<le> 0
            then Inl (BadOptions ''requests, concurrency, timeout, and instances must be positive; warmup cannot be negative'')
          else if op_verify opts \<and> (op_rate opts \<le> 0 \<or> op_burst opts \<le> 0)
            then Inl (BadOptions ''--verify-rate-limit requires positive --rate and --burst'')
          else case parse_statuses (split_on (CHR '','') allowed) of
            Inl err \<Rightarrow> Inl err
          | Inr ss \<Rightarrow> Inr (opts\<lparr>op_allowed := ss\<rparr>))"

section \<open>One request\<close>

text \<open>What happened to a request: it could not be built, the client failed, or a response came.\<close>

datatype client_outcome =
    Unbuildable string
  | DoFailed int
  | Responded int int headers "string option" "string option"

definition no_sample :: Sample where
  "no_sample = \<lparr>sm_latency = 0, sm_status = 0, sm_transport_error = False, sm_headers_valid = False, sm_upstream = []\<rparr>"

definition headers_valid :: "int \<Rightarrow> headers \<Rightarrow> bool" where
  "headers_valid code h \<longleftrightarrow>
     hget ''X-RateLimit-Limit'' h \<noteq> [] \<and> hget ''X-RateLimit-Remaining'' h \<noteq> [] \<and> hget ''X-RateLimit-Reset'' h \<noteq> []
     \<and> (code = 429 \<longrightarrow> hget ''Retry-After'' h \<noteq> [])"

text \<open>\<open>errors.Join\<close>: nil when both are, else the messages on lines of their own.\<close>

definition errors_Join :: "string option \<Rightarrow> string option \<Rightarrow> string option" where
  "errors_Join err1 err2 =
     (case List.map_filter (\<lambda>err. err) [err1, err2] of
        [] \<Rightarrow> None
      | msg # msgs \<Rightarrow> Some (msg @ concat (map (\<lambda>m. CHR 0x0A # m) msgs)))"

text \<open>The headers of the request that is sent; the gateway reads the key back from them.\<close>

definition bench_headers :: "gostring \<Rightarrow> headers" where
  "bench_headers apiKey = hset ''Accept'' ''application/json'' (hset ''X-API-Key'' apiKey [])"

lemma bench_headers_key: "hget ''X-API-Key'' (bench_headers apiKey) = apiKey"
proof -
  have "canonical ''X-API-Key'' \<noteq> canonical ''Accept''" by code_simp
  then show ?thesis by (simp add: bench_headers_def hget_hset)
qed

definition bench_request :: "client_outcome \<Rightarrow> Sample \<times> string option" where
  "bench_request outcome =
     (case outcome of
        Unbuildable err \<Rightarrow> (no_sample, Some err)
      | DoFailed latency \<Rightarrow> (no_sample\<lparr>sm_latency := latency, sm_transport_error := True\<rparr>, None)
      | Responded latency code h copyErr closeErr \<Rightarrow>
          (\<lparr>sm_latency = latency, sm_status = code, sm_transport_error = False,
            sm_headers_valid = headers_valid code h, sm_upstream = TrimSpace (hget ''X-Benchmark-Upstream'' h)\<rparr>,
           errors_Join copyErr closeErr))"

section \<open>The workers\<close>

text \<open>What a worker stores for a job.\<close>

definition measured :: "client_outcome \<Rightarrow> Sample" where
  "measured outcome =
     (case bench_request outcome of (sample, err) \<Rightarrow> if err \<noteq> None then sample\<lparr>sm_transport_error := True\<rparr> else sample)"

fun warm_up :: "nat \<Rightarrow> client_outcome list \<Rightarrow> string option" where
  "warm_up index [] = None"
| "warm_up index (c # cs) =
     (case snd (bench_request c) of
        Some err \<Rightarrow> Some (''warmup request '' @ Itoa (int index + 1) @ '': '' @ err)
      | None \<Rightarrow> warm_up (Suc index) cs)"

datatype bench_worker = Idle | Busy nat | Finished

text \<open>The next index to send on the unbuffered job channel, the workers and the array of samples.\<close>

record bench_state =
  bs_next :: nat
  bs_workers :: "bench_worker list"
  bs_samples :: "Sample list"

inductive bench_step :: "nat \<Rightarrow> (nat \<Rightarrow> client_outcome) \<Rightarrow> bench_state \<Rightarrow> bench_state \<Rightarrow> bool" for n outcome where
  send: "bs_next s < n \<Longrightarrow> w < length (bs_workers s) \<Longrightarrow> bs_workers s ! w = Idle \<Longrightarrow>
    bench_step n outcome s (s\<lparr>bs_next := Suc (bs_next s), bs_workers := (bs_workers s)[w := Busy (bs_next s)]\<rparr>)"
| store: "w < length (bs_workers s) \<Longrightarrow> bs_workers s ! w = Busy i \<Longrightarrow>
    bench_step n outcome s (s\<lparr>bs_workers := (bs_workers s)[w := Idle], bs_samples := (bs_samples s)[i := measured (outcome i)]\<rparr>)"
| quit: "bs_next s = n \<Longrightarrow> w < length (bs_workers s) \<Longrightarrow> bs_workers s ! w = Idle \<Longrightarrow>
    bench_step n outcome s (s\<lparr>bs_workers := (bs_workers s)[w := Finished]\<rparr>)"

definition bench_start :: "nat \<Rightarrow> nat \<Rightarrow> bench_state" where
  "bench_start n k = \<lparr>bs_next = 0, bs_workers = replicate k Idle, bs_samples = replicate n no_sample\<rparr>"

text \<open>\<open>workers.Wait()\<close> returns.\<close>

definition bench_done :: "bench_state \<Rightarrow> bool" where
  "bench_done s \<longleftrightarrow> list_all (\<lambda>w. w = Finished) (bs_workers s)"

section \<open>Verification\<close>

definition Atoi_or_0 :: "gostring \<Rightarrow> int" where
  "Atoi_or_0 s = (case Atoi s of Inl err \<Rightarrow> 0 | Inr n \<Rightarrow> n)"

definition token_maximum :: "int \<Rightarrow> int \<Rightarrow> duration \<Rightarrow> int" where
  "token_maximum rate burst d =
     wrap64 (burst + \<lfloor>f64 (f64 (f64 (of_int rate) * duration_seconds d) + f64 (999999 / 1000000))\<rfloor>)"

definition verification_checks :: "Result \<Rightarrow> options \<Rightarrow> duration \<Rightarrow> (gostring \<times> bool) list" where
  "verification_checks r opts d =
     (let accepted = count_of (rs_statuses r) ''200''; denied = count_of (rs_statuses r) ''429'' in
      [(''no_transport_errors'', rs_transport_errors r = 0),
       (''status_codes_allowed'', list_all (\<lambda>raw. Atoi_or_0 raw \<in> set (op_allowed opts)) (map fst (rs_statuses r)))]
      @ (if op_min_upstreams opts > 0
         then [(''minimum_upstreams_observed'', int (length (rs_upstreams r)) \<ge> op_min_upstreams opts)] else [])
      @ (if op_verify opts
         then [(''accepted_within_token_bound'', accepted \<le> token_maximum (op_rate opts) (op_burst opts) d),
               (''some_requests_accepted'', accepted > 0),
               (''excess_requests_denied'', denied > 0),
               (''rate_limit_headers_present'',
                list_all (\<lambda>s. (sm_status s = 200 \<or> sm_status s = 429) \<longrightarrow> sm_headers_valid s) (rs_samples r))]
         else []))"

definition verify :: "Result \<Rightarrow> options \<Rightarrow> duration \<Rightarrow> bool \<times> Result" where
  "verify r opts d =
     (let checks = verification_checks r opts d;
          passed = list_all snd checks
      in (passed, r\<lparr>rs_verification := Some
           \<lparr>vf_passed = passed, vf_checks = checks, vf_accepted = count_of (rs_statuses r) ''200'',
            vf_denied = count_of (rs_statuses r) ''429'',
            vf_maximum = (if op_verify opts then token_maximum (op_rate opts) (op_burst opts) d else 0),
            vf_upstreams = int (length (rs_upstreams r))\<rparr>\<rparr>))"

section \<open>A whole run\<close>

text \<open>\<open>run\<close> with the samples the workers left; \<open>go_env\<close> is the tool environment it records.\<close>

definition bench_run ::
  "options \<Rightarrow> client_outcome list \<Rightarrow> Sample list \<Rightarrow> int \<Rightarrow> duration \<Rightarrow> (gostring \<times> gostring) list \<Rightarrow> (Result \<times> bool) result"
where
  "bench_run opts warmups samples startedAt d go_env =
     (case warm_up 0 warmups of
        Some err \<Rightarrow> Inl err
      | None \<Rightarrow>
          let r = NewResult \<lparr>md_tool = ''go-loadgen'', md_scenario = op_scenario opts, md_target = op_target opts,
                    md_warmup = op_warmup opts, md_concurrency = op_concurrency opts, md_instances = op_instances opts,
                    md_started = startedAt, md_duration = d, md_environment = go_env\<rparr> samples;
              (passed, r') = verify r opts d
          in Inr (r', passed))"

text \<open>The file system: failures to create the directory, the file, and to close it.\<close>

record file_faults =
  ff_mkdir :: "string option"
  ff_create :: "string option"
  ff_close :: "string option"

definition writeResult :: "(Result \<Rightarrow> gostring result) \<Rightarrow> file_faults \<Rightarrow> gostring \<Rightarrow> Result \<Rightarrow> string option" where
  "writeResult json_encode ff path r =
     (let encodeErr = (case Encode json_encode r of Inl err \<Rightarrow> Some err | Inr text \<Rightarrow> None) in
      if path = ''-'' then encodeErr
      else case ff_mkdir ff of Some err \<Rightarrow> Some (''create output directory: '' @ err) | None \<Rightarrow>
      case ff_create ff of Some err \<Rightarrow> Some (''create output file: '' @ err) | None \<Rightarrow>
      errors_Join encodeErr (ff_close ff))"

text \<open>The exit status of \<open>main\<close>.\<close>

definition loadgen_main ::
  "(options \<Rightarrow> gostring \<Rightarrow> (Result \<times> bool) result) \<Rightarrow> (gostring \<Rightarrow> Result \<Rightarrow> string option) \<Rightarrow> environment \<Rightarrow> gostring list \<Rightarrow> int"
where
  "loadgen_main run_it write_it getenv arguments =
     (case parseOptions arguments of
        Inl err \<Rightarrow> 2
      | Inr opts \<Rightarrow>
          let apiKey = TrimSpace (getenv ''API_KEY'') in
          if apiKey = [] then 2
          else case run_it opts apiKey of
            Inl err \<Rightarrow> 1
          | Inr (r, passed) \<Rightarrow>
              (case write_it (op_output opts) r of Some err \<Rightarrow> 1 | None \<Rightarrow> if passed then 0 else 1))"

section \<open>The workers fill every slot\<close>

lemma mem_update: "x \<in> set xs \<Longrightarrow> xs ! w \<noteq> x \<Longrightarrow> x \<in> set (xs[w := y])"
  by (metis in_set_conv_nth length_list_update nth_list_update_neq)

definition bench_inv :: "nat \<Rightarrow> (nat \<Rightarrow> client_outcome) \<Rightarrow> bench_state \<Rightarrow> bool" where
  "bench_inv n outcome s \<longleftrightarrow> bs_next s \<le> n \<and> length (bs_samples s) = n
     \<and> (\<forall>i. Busy i \<in> set (bs_workers s) \<longrightarrow> i < bs_next s)
     \<and> (\<forall>i<bs_next s. Busy i \<notin> set (bs_workers s) \<longrightarrow> bs_samples s ! i = measured (outcome i))
     \<and> (Finished \<in> set (bs_workers s) \<longrightarrow> bs_next s = n)"

lemma bench_step_inv: "bench_step n outcome s s' \<Longrightarrow> bench_inv n outcome s \<Longrightarrow> bench_inv n outcome s'"
proof (induction rule: bench_step.induct)
  case (send s w)
  have "\<And>x. x \<noteq> Idle \<Longrightarrow> x \<in> set (bs_workers s) \<Longrightarrow> x \<in> set ((bs_workers s)[w := Busy (bs_next s)])"
    using mem_update [of _ "bs_workers s" w] send(3) by metis
  moreover have "Busy (bs_next s) \<in> set ((bs_workers s)[w := Busy (bs_next s)])"
    using send(2) by (simp add: set_update_memI)
  moreover have "set ((bs_workers s)[w := Busy (bs_next s)]) \<subseteq> insert (Busy (bs_next s)) (set (bs_workers s))"
    by (rule set_update_subset_insert)
  ultimately show ?case using send(1,4) unfolding bench_inv_def by (auto simp: less_Suc_eq)
next
  case (store w s i)
  have "\<And>x. x \<noteq> Busy i \<Longrightarrow> x \<in> set (bs_workers s) \<Longrightarrow> x \<in> set ((bs_workers s)[w := Idle])"
    using mem_update [of _ "bs_workers s" w] store(2) by metis
  moreover have "Busy i \<in> set (bs_workers s)" using store(1,2) by (metis nth_mem)
  moreover have "set ((bs_workers s)[w := Idle]) \<subseteq> insert Idle (set (bs_workers s))" by (rule set_update_subset_insert)
  moreover have "(bs_samples s)[i := measured (outcome i)] ! j = measured (outcome j)"
    if "j < bs_next s" "Busy j \<notin> set ((bs_workers s)[w := Idle])" for j
  proof (cases "j = i")
    case True
    then show ?thesis using that(1) store(3) by (simp add: bench_inv_def)
  next
    case False
    then have "Busy j \<notin> set (bs_workers s)" using that(2) mem_update [of "Busy j" "bs_workers s" w Idle] store(2) by auto
    then show ?thesis using False that(1) store(3) by (simp add: bench_inv_def)
  qed
  ultimately show ?case using store(3) unfolding bench_inv_def by auto
next
  case (quit s w)
  have "\<And>x. x \<noteq> Idle \<Longrightarrow> x \<in> set (bs_workers s) \<Longrightarrow> x \<in> set ((bs_workers s)[w := Finished])"
    using mem_update [of _ "bs_workers s" w] quit(3) by metis
  moreover have "set ((bs_workers s)[w := Finished]) \<subseteq> insert Finished (set (bs_workers s))" by (rule set_update_subset_insert)
  ultimately show ?case using quit(1,4) unfolding bench_inv_def by auto
qed

text \<open>The steps that are left: two per unsent job, two for a busy worker, one for an idle one.\<close>

fun worker_left :: "bench_worker \<Rightarrow> nat" where
  "worker_left Idle = 1"
| "worker_left (Busy i) = 2"
| "worker_left Finished = 0"

definition bench_left :: "nat \<Rightarrow> bench_state \<Rightarrow> nat" where
  "bench_left n s = 2 * (n - bs_next s) + sum_list (map worker_left (bs_workers s))"

lemma sum_workers_update:
  "w < length ws \<Longrightarrow> sum_list (map worker_left (ws[w := x])) + worker_left (ws ! w) = sum_list (map worker_left ws) + worker_left x"
proof (induction ws arbitrary: w)
  case (Cons a ws)
  then show ?case by (cases w) (simp_all add: add.assoc)
qed simp

lemma bench_step_left: "bench_step n outcome s s' \<Longrightarrow> Suc (bench_left n s') = bench_left n s"
proof (induction rule: bench_step.induct)
  case (send s w)
  then show ?case using sum_workers_update [of w "bs_workers s" "Busy (bs_next s)"] by (simp add: bench_left_def)
next
  case (store w s i)
  then show ?case using sum_workers_update [of w "bs_workers s" Idle] by (simp add: bench_left_def)
next
  case (quit s w)
  then show ?case using sum_workers_update [of w "bs_workers s" Finished] by (simp add: bench_left_def)
qed

lemma bench_step_workers: "bench_step n outcome s s' \<Longrightarrow> length (bs_workers s') = length (bs_workers s)"
  by (induction rule: bench_step.induct) simp_all

lemma bench_run_inv:
  "(bench_step n outcome ^^ j) (bench_start n k) s \<Longrightarrow>
     bench_inv n outcome s \<and> j + bench_left n s = 2 * n + k \<and> length (bs_workers s) = k"
proof (induction j arbitrary: s)
  case 0
  then show ?case by (auto simp: bench_start_def bench_inv_def bench_left_def sum_list_replicate)
next
  case (Suc j)
  then obtain s1 where "(bench_step n outcome ^^ j) (bench_start n k) s1" "bench_step n outcome s1 s" by auto
  then show ?case using Suc.IH [of s1] bench_step_inv bench_step_left bench_step_workers by fastforce
qed

lemma bench_progress: "bench_inv n outcome s \<Longrightarrow> \<not> bench_done s \<Longrightarrow> \<exists>s'. bench_step n outcome s s'"
proof -
  assume inv: "bench_inv n outcome s" and "\<not> bench_done s"
  then obtain w where w: "w < length (bs_workers s)" "bs_workers s ! w \<noteq> Finished"
    by (auto simp: bench_done_def list_all_length)
  show ?thesis
  proof (cases "bs_workers s ! w")
    case Idle
    then show ?thesis using w inv bench_step.send bench_step.quit unfolding bench_inv_def by (metis le_neq_implies_less)
  next
    case (Busy i)
    then show ?thesis using w bench_step.store by blast
  qed (use w in simp)
qed

text \<open>
  C26. However the workers are scheduled, the load generator finishes, after two steps per request and one
  per worker at most and never stuck before, and when it has finished every slot holds the sample of its
  own request: none is skipped, measured twice or overwritten.
\<close>

theorem workers_fill_every_slot:
  assumes "0 < k" and "(bench_step n outcome ^^ j) (bench_start n k) s"
  shows "j \<le> 2 * n + k \<and> (bench_done s \<or> (\<exists>s'. bench_step n outcome s s'))
    \<and> (j = 2 * n + k \<longleftrightarrow> bench_done s)
    \<and> (bench_done s \<longrightarrow> bs_samples s = map (\<lambda>i. measured (outcome i)) [0..<n])"
proof -
  have inv: "bench_inv n outcome s" and left: "j + bench_left n s = 2 * n + k" and len: "length (bs_workers s) = k"
    using bench_run_inv [OF assms(2)] by auto
  have zero: "sum_list (map worker_left ws) = 0 \<longleftrightarrow> (\<forall>w\<in>set ws. w = Finished)" for ws
  proof -
    have "worker_left w = 0 \<longleftrightarrow> w = Finished" for w by (cases w) simp_all
    then show ?thesis by auto
  qed
  have fin: "bs_next s = n \<and> bs_samples s = map (\<lambda>i. measured (outcome i)) [0..<n]" if ended: "bench_done s"
  proof -
    have all: "\<forall>w\<in>set (bs_workers s). w = Finished" using ended by (simp add: bench_done_def list_all_iff)
    moreover have "set (bs_workers s) \<noteq> {}" using len assms(1) by auto
    ultimately have "Finished \<in> set (bs_workers s)" by (metis ex_in_conv)
    then show ?thesis using inv all unfolding bench_inv_def by (auto intro!: nth_equalityI)
  qed
  have "bench_left n s = 0 \<longleftrightarrow> bench_done s"
    using fin zero [of "bs_workers s"] inv unfolding bench_left_def bench_done_def list_all_iff bench_inv_def
    by (metis add_is_0 diff_self_eq_0 mult_0_right)
  then have "j = 2 * n + k \<longleftrightarrow> bench_done s" using left by linarith
  then show ?thesis using left fin bench_progress [OF inv] by auto
qed

theorem workers_fill_every_slot_witness:
  "\<exists>s. (bench_step 1 (\<lambda>i. DoFailed 5) ^^ 3) (bench_start 1 1) s \<and> bench_done s \<and> bs_samples s = [measured (DoFailed 5)]"
proof -
  let ?S = "bench_step 1 (\<lambda>i. DoFailed 5)"
  let ?s1 = "\<lparr>bs_next = 1, bs_workers = [Busy 0], bs_samples = [no_sample]\<rparr>"
  let ?s2 = "\<lparr>bs_next = 1, bs_workers = [Idle], bs_samples = [measured (DoFailed 5)]\<rparr>"
  let ?s3 = "\<lparr>bs_next = 1, bs_workers = [Finished], bs_samples = [measured (DoFailed 5)]\<rparr>"
  have "?S (bench_start 1 1) ?s1" using bench_step.send [of "bench_start 1 1" 1 0] by (simp add: bench_start_def)
  moreover have "?S ?s1 ?s2" using bench_step.store [of 0 ?s1 0 1 "\<lambda>i. DoFailed 5"] by simp
  moreover have "?S ?s2 ?s3" using bench_step.quit [of ?s2 1 0] by simp
  ultimately have run: "(?S ^^ 3) (bench_start 1 1) ?s3" by (auto simp: numeral_3_eq_3)
  moreover have "bench_done ?s3" by (simp add: bench_done_def)
  moreover have "bs_samples ?s3 = [measured (DoFailed 5)]"
    using workers_fill_every_slot [OF _ run] \<open>bench_done ?s3\<close> by simp
  ultimately show ?thesis by blast
qed

section \<open>What passing means\<close>

lemma Itoa_200: "Itoa 200 = ''200''" "Itoa 429 = ''429''"
  by code_simp+

lemma Itoa_inj: "in_int64 a \<Longrightarrow> in_int64 b \<Longrightarrow> Itoa a = Itoa b \<longleftrightarrow> a = b"
  by (metis Atoi_Itoa sum.inject(2))

lemma status_keys: "fst ` set (ta_statuses (tally_samples xs)) = (\<lambda>s. Itoa (sm_status s)) ` {s \<in> set xs. \<not> sm_transport_error s}"
proof (induction xs rule: rev_induct)
  case Nil
  then show ?case by (simp add: tally_samples_def)
next
  case (snoc x xs)
  then show ?case by (auto simp: tally_snoc count_sample_def Let_def keys_bump)
qed

lemma upstream_count: "int (length (ta_upstreams (tally_samples xs))) = int (card (sm_upstream ` set xs - {[]}))"
proof -
  have "length (map fst (ta_upstreams (tally_samples xs))) = card (set (map fst (ta_upstreams (tally_samples xs))))"
    using tally_exact(6) [of xs] by (simp only: distinct_card)
  then show ?thesis by (simp add: tally_exact(7))
qed

lemma verify_iff:
  "fst (verify r opts d) \<longleftrightarrow> rs_transport_errors r = 0
     \<and> list_all (\<lambda>raw. Atoi_or_0 raw \<in> set (op_allowed opts)) (map fst (rs_statuses r))
     \<and> (0 < op_min_upstreams opts \<longrightarrow> op_min_upstreams opts \<le> int (length (rs_upstreams r)))
     \<and> (op_verify opts \<longrightarrow> count_of (rs_statuses r) ''200'' \<le> token_maximum (op_rate opts) (op_burst opts) d
        \<and> 0 < count_of (rs_statuses r) ''200'' \<and> 0 < count_of (rs_statuses r) ''429''
        \<and> list_all (\<lambda>s. (sm_status s = 200 \<or> sm_status s = 429) \<longrightarrow> sm_headers_valid s) (rs_samples r))"
  by (simp add: verify_def Let_def verification_checks_def)

text \<open>
  C35. A run passes exactly when its samples say so: no transport error, only allowed statuses, enough
  distinct upstreams, and, where the rate limit is verified, at least one accepted and one denied
  request, no more accepted than the token bound, and quota headers on every such response.
\<close>

theorem verify_decides:
  assumes "r = NewResult md samples" and "\<forall>s\<in>set samples. in_int64 (sm_status s)"
  shows "fst (verify r opts d) \<longleftrightarrow>
     (\<forall>s\<in>set samples. \<not> sm_transport_error s \<and> sm_status s \<in> set (op_allowed opts))
   \<and> (0 < op_min_upstreams opts \<longrightarrow> op_min_upstreams opts \<le> int (card (sm_upstream ` set samples - {[]})))
   \<and> (op_verify opts \<longrightarrow>
        samples_with (\<lambda>s. sm_status s = 200) samples \<le> token_maximum (op_rate opts) (op_burst opts) d
      \<and> (\<exists>s\<in>set samples. sm_status s = 200) \<and> (\<exists>s\<in>set samples. sm_status s = 429)
      \<and> (\<forall>s\<in>set samples. sm_status s \<in> {200, 429} \<longrightarrow> sm_headers_valid s))"
proof -
  have r: "rs_transport_errors r = samples_with sm_transport_error samples" "rs_samples r = samples"
    "int (length (rs_upstreams r)) = int (card (sm_upstream ` set samples - {[]}))"
    "fst ` set (rs_statuses r) = (\<lambda>s. Itoa (sm_status s)) ` {s \<in> set samples. \<not> sm_transport_error s}"
    "count_of (rs_statuses r) k = samples_with (\<lambda>s. \<not> sm_transport_error s \<and> Itoa (sm_status s) = k) samples" for k
    unfolding assms(1) NewResult_def Let_def by (simp_all add: tally_exact upstream_count status_keys)
  have no_err: "rs_transport_errors r = 0 \<longleftrightarrow> (\<forall>s\<in>set samples. \<not> sm_transport_error s)"
    by (simp add: r(1) filter_empty_conv)
  show ?thesis
  proof (cases "\<forall>s\<in>set samples. \<not> sm_transport_error s")
    case False
    then show ?thesis unfolding verify_iff no_err by blast
  next
    case True
    have "Atoi_or_0 (Itoa (sm_status s)) = sm_status s" if "s \<in> set samples" for s
      using assms(2) that by (simp add: Atoi_or_0_def Atoi_Itoa)
    then have allowed: "list_all (\<lambda>raw. Atoi_or_0 raw \<in> set (op_allowed opts)) (map fst (rs_statuses r))
        \<longleftrightarrow> (\<forall>s\<in>set samples. sm_status s \<in> set (op_allowed opts))"
      using True unfolding list_all_iff set_map r(4) by auto
    have code: "count_of (rs_statuses r) (Itoa c) = samples_with (\<lambda>s. sm_status s = c) samples" if "in_int64 c" for c
      unfolding r(5) using True assms(2) Itoa_inj [OF _ that] by (auto intro!: arg_cong [where f = length] filter_cong)
    have "in_int64 200" "in_int64 429" by (simp_all add: in_int64_def)
    note codes = code [OF this(1), unfolded Itoa_200] code [OF this(2), unfolded Itoa_200]
    have pos: "0 < samples_with P samples \<longleftrightarrow> (\<exists>s\<in>set samples. P s)" for P by (auto simp: filter_empty_conv)
    show ?thesis unfolding verify_iff no_err allowed codes pos r(2,3) using True by (simp add: list_all_iff)
  qed
qed

theorem verify_decides_witness:
  "fst (verify (NewResult sample_metadata [sample_of 200 False]) ((fst default_options)\<lparr>op_allowed := [200]\<rparr>) 1000000000)"
  using verify_decides [OF refl, of "[sample_of 200 False]" sample_metadata "(fst default_options)\<lparr>op_allowed := [200]\<rparr>" 1000000000]
  by (simp add: sample_of_def default_options_def in_int64_def)

section \<open>The token bound in double precision\<close>

lemma f64_nonneg: "0 \<le> x \<Longrightarrow> 0 \<le> f64 x"
  using f64_mono [of 0 x] by simp

lemma duration_seconds_err:
  assumes "0 \<le> d" and "d < 2 ^ 53"
  shows "\<bar>duration_seconds d - of_int d / 1000000000\<bar> \<le> (of_int d / 1000000000 + 2) / 2 ^ 53" and "0 \<le> duration_seconds d"
proof -
  define w r where "w = d div 1000000000" and "r = d mod 1000000000"
  have wr: "0 \<le> w" "w \<le> 2 ^ 53" "0 \<le> r" "r < 1000000000" "d = w * 1000000000 + r"
    using assms by (auto simp: w_def r_def)
  define q where "q = f64 (of_int r / 1000000000)"
  have ex: "f64 (of_int w) = of_int w" "f64 (of_int r) = of_int r" using wr by (intro f64_of_int; simp)+
  have r1: "0 \<le> (of_int r / 1000000000 :: rat)" "(of_int r / 1000000000 :: rat) < 1" using wr by simp_all
  have qerr: "\<bar>q - of_int r / 1000000000\<bar> \<le> (of_int r / 1000000000) / 2 ^ 53" unfolding q_def by (rule f64_err [OF r1(1)])
  have q0: "0 \<le> q" unfolding q_def by (rule f64_nonneg [OF r1(1)])
  have sec: "duration_seconds d = f64 (of_int w + q)"
    using assms(1) ex by (simp add: duration_seconds_def q_def w_def r_def sdiv_nonneg smod_nonneg)
  have w0: "(0 :: rat) \<le> of_int w" using wr by simp
  have serr: "\<bar>duration_seconds d - (of_int w + q)\<bar> \<le> (of_int w + q) / 2 ^ 53"
    unfolding sec by (rule f64_err) (use q0 w0 in simp)
  have dd: "of_int d / 1000000000 = (of_int w + of_int r / 1000000000 :: rat)" using wr(5) by simp
  show "\<bar>duration_seconds d - of_int d / 1000000000\<bar> \<le> (of_int d / 1000000000 + 2) / 2 ^ 53"
    unfolding dd using qerr serr r1 q0 unfolding abs_le_iff by simp
  show "0 \<le> duration_seconds d" unfolding sec by (rule f64_nonneg) (use q0 w0 in simp)
qed

text \<open>
  The bound the load generator checks is the bound the limiter guarantees: the tokens of the burst and
  of the elapsed time, rounded down, and at most one more, in spite of the rounding of the double
  computation; so a limiter that keeps its promise is never reported.
\<close>

theorem token_maximum_exact:
  assumes "0 < rate" and "rate < 2 ^ 31" and "0 < burst" and "burst < 2 ^ 31" and "0 \<le> d" and "d < 2 ^ 53"
    and "rate * d \<le> 2 ^ 29 * 1000000000"
  shows "burst + rate * d div 1000000000 \<le> token_maximum rate burst d
    \<and> token_maximum rate burst d \<le> burst + rate * d div 1000000000 + 1"
proof -
  define x where "x = (of_int (rate * d) / 1000000000 :: rat)"
  define secs where "secs = duration_seconds d"
  define P where "P = of_int rate * secs"
  define fP where "fP = f64 P"
  define c where "c = f64 (999999 / 1000000)"
  define fQ where "fQ = f64 (fP + c)"
  have rt: "f64 (of_int rate) = of_int rate" using assms by (intro f64_of_int) auto
  have "(of_int rate :: rat) < of_int (2 ^ 31)" using assms(2) by (simp only: of_int_less_iff)
  then have rate: "0 < (of_int rate :: rat)" "(of_int rate :: rat) < 2 ^ 31" using assms(1) by simp_all
  have "(of_int (rate * d) :: rat) \<le> of_int (2 ^ 29 * 1000000000)" using assms(7) by (simp only: of_int_le_iff)
  then have x: "0 \<le> x" "x \<le> 2 ^ 29" using assms(1,5) by (simp_all add: x_def)
  have s: "\<bar>secs - of_int d / 1000000000\<bar> \<le> (of_int d / 1000000000 + 2) / 2 ^ 53" "0 \<le> secs"
    using duration_seconds_err [OF assms(5,6)] by (simp_all add: secs_def)
  have "P - x = of_int rate * (secs - of_int d / 1000000000)" by (simp add: P_def x_def right_diff_distrib)
  then have "\<bar>P - x\<bar> = of_int rate * \<bar>secs - of_int d / 1000000000\<bar>" using rate(1) by (simp add: abs_mult)
  also have "\<dots> \<le> of_int rate * ((of_int d / 1000000000 + 2) / 2 ^ 53)" using s(1) rate(1) by (intro mult_left_mono) simp_all
  also have "\<dots> = (x + 2 * of_int rate) / 2 ^ 53" by (simp add: x_def distrib_left)
  finally have P: "\<bar>P - x\<bar> \<le> (x + 2 * of_int rate) / 2 ^ 53" .
  have P0: "0 \<le> P" using rate s(2) by (simp add: P_def)
  have fP: "\<bar>fP - P\<bar> \<le> P / 2 ^ 53" unfolding fP_def by (rule f64_err [OF P0])
  have fP0: "0 \<le> fP" unfolding fP_def by (rule f64_nonneg [OF P0])
  have c: "\<bar>c - 999999 / 1000000\<bar> \<le> (999999 / 1000000) / 2 ^ 53" "0 \<le> c"
    unfolding c_def by (rule f64_err, simp, rule f64_nonneg, simp)
  have fQ: "\<bar>fQ - (fP + c)\<bar> \<le> (fP + c) / 2 ^ 53" unfolding fQ_def by (rule f64_err) (use fP0 c in simp)
  have "x \<le> fQ" "fQ < x + 1" using P fP c fQ rate x unfolding abs_le_iff by simp_all
  then have "\<lfloor>x\<rfloor> \<le> \<lfloor>fQ\<rfloor>" "\<lfloor>fQ\<rfloor> \<le> \<lfloor>x\<rfloor> + 1"
    using floor_mono [of x fQ] floor_mono [of fQ "x + 1"] by simp_all
  moreover have "\<lfloor>x\<rfloor> = rate * d div 1000000000"
    unfolding x_def using floor_divide_of_int_eq [of "rate * d" 1000000000, where 'a = rat] by simp
  moreover have "0 \<le> rate * d div 1000000000" using assms by (simp add: pos_imp_zdiv_nonneg_iff)
  moreover have "rate * d div 1000000000 \<le> 2 ^ 29" using zdiv_mono1 [OF assms(7), of 1000000000] by simp
  moreover have "token_maximum rate burst d = wrap64 (burst + \<lfloor>fQ\<rfloor>)"
    by (simp add: token_maximum_def rt fQ_def fP_def P_def secs_def c_def)
  moreover have "wrap64 (burst + \<lfloor>fQ\<rfloor>) = burst + \<lfloor>fQ\<rfloor>"
    by (rule wrap64_id) (use calculation assms(3,4) in \<open>auto simp: in_int64_def\<close>)
  ultimately show ?thesis by linarith
qed

theorem token_maximum_exact_witness:
  "token_maximum 5 10 2500000000 \<in> {22, 23}"
  using token_maximum_exact [of 5 10 2500000000] by auto

end
