(* ===== verification/Bench_Report.thy ===== *)
theory Bench_Report
  imports Load_Generator "HOL-Library.List_Lexorder" "HOL-Library.Char_ord" "HOL-Library.Product_Lexorder"
begin

text \<open>
  \<open>cmd/benchreport/main.go\<close>: reading raw results, ordering them and writing the CSV summary, the Markdown
  report and the SVG chart.  The texts are built character by character as the source prints them; the
  file system is an argument.  Go's sort is not stable, so results with the same scenario and tool may
  come in any order; the model keeps their order.
\<close>

abbreviation (input) quot :: string where "quot \<equiv> [CHR 0x22]"
abbreviation (input) lf :: string where "lf \<equiv> [CHR 0x0A]"

section \<open>Reading\<close>

text \<open>A listed file: its path and what opening gives, the contents and the error of closing it.\<close>

type_synonym raw_file = "gostring \<times> (gostring \<times> string option) result"

fun read_files :: "(gostring \<Rightarrow> Result result) \<Rightarrow> raw_file list \<Rightarrow> Result list result" where
  "read_files json_decode [] = Inr []"
| "read_files json_decode ((path, opened) # rest) =
     (case opened of
        Inl err \<Rightarrow> Inl (''open '' @ path @ '': '' @ err)
      | Inr (text, closeErr) \<Rightarrow>
          let res = Decode json_decode text;
              decodeErr = (case res of Inl err \<Rightarrow> Some err | Inr r \<Rightarrow> None)
          in case (res, errors_Join decodeErr closeErr) of
               (Inr r, None) \<Rightarrow>
                 (case read_files json_decode rest of Inl err \<Rightarrow> Inl err | Inr rs \<Rightarrow> Inr (r # rs))
             | (_, Some err) \<Rightarrow> Inl (''read '' @ path @ '': '' @ err)
             | (Inl err, None) \<Rightarrow> Inl (''read '' @ path @ '': '' @ err))"

definition readResults :: "(gostring \<Rightarrow> Result result) \<Rightarrow> gostring \<Rightarrow> raw_file list result \<Rightarrow> Result list result" where
  "readResults json_decode directory listing =
     (case listing of
        Inl err \<Rightarrow> Inl (''list raw benchmark results: '' @ err)
      | Inr files \<Rightarrow>
          if files = [] then Inl (''no JSON benchmark results found in '' @ directory)
          else case read_files json_decode files of
            Inl err \<Rightarrow> Inl err
          | Inr rs \<Rightarrow> Inr (sort_key (\<lambda>r. (rs_scenario r, rs_tool r)) rs))"

fun findResult :: "Result list \<Rightarrow> gostring \<Rightarrow> gostring \<Rightarrow> Result option" where
  "findResult [] scenario tool = None"
| "findResult (r # rs) scenario tool =
     (if rs_scenario r = scenario \<and> rs_tool r = tool then Some r else findResult rs scenario tool)"

definition percentChange :: "rat \<Rightarrow> rat \<Rightarrow> rat" where
  "percentChange before after = (if before = 0 then 0 else f64 (f64 (100 * f64 (after - before)) / before))"

definition decimal :: "rat \<Rightarrow> gostring" where
  "decimal v = FormatFixed 6 v"

definition FormatBool :: "bool \<Rightarrow> gostring" where
  "FormatBool b = (if b then ''true'' else ''false'')"

section \<open>The CSV summary\<close>

text \<open>\<open>encoding/csv\<close>: which fields are quoted, and how.\<close>

definition fieldNeedsQuotes :: "gostring \<Rightarrow> bool" where
  "fieldNeedsQuotes f =
     (if f = [] then False
      else if f = [CHR 0x5C, CHR ''.''] then True
      else list_ex (\<lambda>c. c = CHR 0x0A \<or> c = CHR 0x0D \<or> c = CHR 0x22 \<or> c = CHR '','') f
        \<or> list_ex (\<lambda>r. r \<noteq> [] \<and> prefix r f) space_runes)"

definition csv_field :: "gostring \<Rightarrow> gostring" where
  "csv_field f =
     (if fieldNeedsQuotes f
      then quot @ concat (map (\<lambda>c. if c = CHR 0x22 then [CHR 0x22, CHR 0x22] else [c]) f) @ quot else f)"

fun csv_line :: "gostring list \<Rightarrow> gostring" where
  "csv_line [] = lf"
| "csv_line [f] = csv_field f @ lf"
| "csv_line (f # fs) = csv_field f @ '','' @ csv_line fs"

definition csv_header :: "gostring list" where
  "csv_header =
    [''scenario'', ''tool'', ''gateway_instances'', ''requests'', ''concurrency'', ''duration_ms'', ''throughput_rps'',
     ''p50_ms'', ''p95_ms'', ''p99_ms'', ''error_rate_percent'', ''rate_limited'', ''observed_upstreams'', ''verification_passed'']"

definition csv_row :: "Result \<Rightarrow> gostring list" where
  "csv_row r =
    [rs_scenario r, rs_tool r, Itoa (rs_instances r), Itoa (rs_requests r), Itoa (rs_concurrency r),
     decimal (rs_duration_ms r), decimal (rs_throughput r), decimal (ls_p50 (rs_latency r)), decimal (ls_p95 (rs_latency r)),
     decimal (ls_p99 (rs_latency r)), decimal (rs_error_rate r), Itoa (rs_rate_limited r), Itoa (int (length (rs_upstreams r))),
     (case rs_verification r of None \<Rightarrow> [] | Some v \<Rightarrow> FormatBool (vf_passed v))]"

record csv_faults =
  cf_create :: "string option"
  cf_write :: "string option"
  cf_flush :: "string option"
  cf_close :: "string option"

definition writeCSV :: "csv_faults \<Rightarrow> Result list \<Rightarrow> string option \<times> gostring" where
  "writeCSV cf results =
     (case cf_create cf of Some err \<Rightarrow> (Some (''create summary CSV: '' @ err), [])
      | None \<Rightarrow>
      case cf_write cf of Some err \<Rightarrow> (Some (''write summary CSV: '' @ err), [])
      | None \<Rightarrow> (errors_Join (cf_flush cf) (cf_close cf), concat (map csv_line (csv_header # map csv_row results))))"

section \<open>The Markdown report\<close>

definition contains :: "gostring \<Rightarrow> gostring \<Rightarrow> bool" where
  "contains s sub \<longleftrightarrow> sublist sub s"

definition markdown_row :: "Result \<Rightarrow> gostring" where
  "markdown_row r =
     ''| '' @ rs_scenario r @ '' | '' @ rs_tool r @ '' | '' @ Itoa (rs_instances r) @ '' | '' @ Itoa (rs_requests r) @ '' / ''
     @ Itoa (rs_concurrency r) @ '' | '' @ FormatFixed 2 (rs_throughput r) @ '' req/s | ''
     @ FormatFixed 2 (ls_p50 (rs_latency r)) @ '' ms | '' @ FormatFixed 2 (ls_p95 (rs_latency r)) @ '' ms | ''
     @ FormatFixed 2 (ls_p99 (rs_latency r)) @ '' ms | '' @ FormatFixed 2 (rs_error_rate r) @ ''% | ''
     @ Itoa (int (length (rs_upstreams r))) @ '' |'' @ lf"

definition quota_line :: "Result \<Rightarrow> Verification \<Rightarrow> gostring" where
  "quota_line r v =
     ''- `'' @ rs_scenario r @ ''`: **passed='' @ FormatBool (vf_passed v) @ ''**, accepted='' @ Itoa (vf_accepted v)
     @ '', denied='' @ Itoa (vf_denied v) @ '', theoretical maximum accepted='' @ Itoa (vf_maximum v)
     @ ''; required headers and allowed statuses are recorded in the raw result.'' @ lf"

definition quota_lines :: "Result list \<Rightarrow> gostring list" where
  "quota_lines results =
     concat (map (\<lambda>r. case rs_verification r of None \<Rightarrow> []
       | Some v \<Rightarrow> if contains (rs_scenario r) ''rate-limit'' then [quota_line r v] else []) results)"

text \<open>The verb \<open>%+.2f\<close>.\<close>

definition signed_2 :: "rat \<Rightarrow> gostring" where
  "signed_2 x = (if x < 0 then [] else ''+'') @ FormatFixed 2 x"

definition change_lines :: "Result list \<Rightarrow> gostring list" where
  "change_lines results =
     (case (findResult results ''single-go'' ''go-loadgen'', findResult results ''multi-go'' ''go-loadgen'') of
        (Some single, Some multi) \<Rightarrow>
          [''- In this run, moving from '' @ Itoa (rs_instances single) @ '' to '' @ Itoa (rs_instances multi)
           @ '' gateway instances changed Go-client throughput by ''
           @ signed_2 (percentChange (rs_throughput single) (rs_throughput multi)) @ ''% and p95 latency by ''
           @ signed_2 (percentChange (ls_p95 (rs_latency single)) (ls_p95 (rs_latency multi)))
           @ ''%. Shared runner CPU, PostgreSQL, Redis, Nginx, and the client can all influence that observation; the data alone does not identify a cause.'' @ lf]
      | _ \<Rightarrow> [])"

definition markdown_lines :: "Result list \<Rightarrow> gostring list" where
  "markdown_lines results =
     map (\<lambda>l. l @ lf)
      [''# Measured benchmark report'', [],
       ''> Every number below is derived from committed raw request samples. These results describe one recorded environment; they are not universal capacity claims.'', [],
       ''## Measured facts'', [],
       ''| Scenario | Client | Instances | Requests / concurrency | Throughput | p50 | p95 | p99 | Errors | Upstreams |'',
       ''|---|---|---:|---:|---:|---:|---:|---:|---:|---:|'']
     @ map markdown_row results
     @ map (\<lambda>l. l @ lf) [[], ''## Rate-limit correctness'', []]
     @ (if quota_lines results = [] then [''- No rate-limit verification result was present.'' @ lf] else quota_lines results)
     @ map (\<lambda>l. l @ lf) [[], ''## Interpretation (not measured fact)'', []]
     @ change_lines results
     @ map (\<lambda>l. l @ lf)
      [''- Go and C++ results are independent client implementations and a reproducibility cross-check. Differences between them must not be described as gateway improvements because their connection handling and runtime overhead differ.'',
       ''- Percentiles use the nearest-rank method over end-to-end client latency. Warmup requests are excluded.'', [],
       ''## Evidence'', [],
       ''- `../raw/*.json`: per-request latency, status, transport outcome, quota-header validity, selected upstream, timing, and tool environment'',
       ''- `summary.csv`: machine-readable aggregate comparison'',
       ''- `comparison.svg`: visualization of the measured aggregate values'',
       ''- `../../docs/benchmarking.md`: exact reproduction commands, workload, and limitations'']"

definition writeMarkdown :: "string option \<Rightarrow> Result list \<Rightarrow> string option \<times> gostring" where
  "writeMarkdown create_fault results =
     (case create_fault of
        Some err \<Rightarrow> (Some (''create benchmark report: '' @ err), [])
      | None \<Rightarrow> (None, concat (markdown_lines results)))"

section \<open>The chart\<close>

text \<open>\<open>html.EscapeString\<close>\<close>

definition escape_char :: "char \<Rightarrow> gostring" where
  "escape_char c =
     (if c = CHR ''&'' then ''&amp;'' else if c = CHR 0x27 then ''&#39;'' else if c = CHR ''<'' then ''&lt;''
      else if c = CHR ''>'' then ''&gt;'' else if c = CHR 0x22 then ''&#34;'' else [c])"

definition EscapeString :: "gostring \<Rightarrow> gostring" where
  "EscapeString s = concat (map escape_char s)"

definition open_tag :: "gostring \<Rightarrow> (gostring \<times> gostring) list \<Rightarrow> gostring" where
  "open_tag tag attrs = ''<'' @ tag @ concat (map (\<lambda>(n, v). '' '' @ n @ ''='' @ quot @ v @ quot) attrs)"

definition closed_element :: "gostring \<Rightarrow> (gostring \<times> gostring) list \<Rightarrow> gostring" where
  "closed_element tag attrs = open_tag tag attrs @ ''/>''"

definition text_element :: "(gostring \<times> gostring) list \<Rightarrow> gostring \<Rightarrow> gostring" where
  "text_element attrs body = open_tag ''text'' attrs @ ''>'' @ body @ ''</text>''"

abbreviation (input) chart_top :: rat where "chart_top \<equiv> 105"
abbreviation (input) chart_bottom :: rat where "chart_bottom \<equiv> 535"

definition measured_results :: "Result list \<Rightarrow> Result list" where
  "measured_results results = filter (\<lambda>r. \<not> contains (rs_scenario r) ''rate-limit'') results"

text \<open>The maxima, replaced by 1 where they are 0.\<close>

definition chart_maximum :: "(Result \<Rightarrow> rat) \<Rightarrow> Result list \<Rightarrow> rat" where
  "chart_maximum value_of rs = (let m = fold (\<lambda>r m. max m (value_of r)) rs 0 in if m = 0 then 1 else m)"

text \<open>The height of a bar and the upper edge it reaches.\<close>

definition bar_height :: "rat \<Rightarrow> rat \<Rightarrow> rat" where
  "bar_height v m = f64 (f64 (v / m) * (chart_bottom - chart_top))"

definition bar_top :: "rat \<Rightarrow> rat" where
  "bar_top h = f64 (chart_bottom - h)"

definition bar_rect :: "rat \<Rightarrow> rat \<Rightarrow> rat \<Rightarrow> gostring \<Rightarrow> gostring \<Rightarrow> gostring" where
  "bar_rect x w h rx cls = closed_element ''rect''
     [(''x'', FormatFixed 1 x), (''y'', FormatFixed 1 (bar_top h)), (''width'', FormatFixed 1 w), (''height'', FormatFixed 1 h),
      (''rx'', rx), (''class'', cls)]"

definition bar_label :: "rat \<Rightarrow> rat \<Rightarrow> gostring \<Rightarrow> rat \<Rightarrow> gostring" where
  "bar_label x y font v = text_element
     [(''x'', FormatFixed 1 x), (''y'', FormatFixed 1 y), (''font-size'', font), (''text-anchor'', ''middle'')] (FormatFixed 1 v)"

definition axis_label :: "rat \<Rightarrow> gostring \<Rightarrow> gostring" where
  "axis_label x name = text_element
     [(''x'', FormatFixed 1 x), (''y'', FormatFixed 1 (chart_bottom + 24)), (''font-size'', ''11''), (''text-anchor'', ''middle''),
      (''transform'', ''rotate(25 '' @ FormatFixed 1 x @ '' '' @ FormatFixed 1 (chart_bottom + 24) @ '')'')] (EscapeString name)"

definition drawPanel :: "rat \<Rightarrow> rat \<Rightarrow> gostring \<Rightarrow> gostring \<Rightarrow> gostring" where
  "drawPanel x panelWidth title unit_name =
     text_element [(''x'', FormatFixed 0 x), (''y'', ''98''), (''font-size'', ''17''), (''font-weight'', ''600'')] (EscapeString title)
     @ closed_element ''line'' [(''x1'', FormatFixed 0 x), (''y1'', FormatFixed 0 chart_bottom),
         (''x2'', FormatFixed 0 (f64 (x + panelWidth))), (''y2'', FormatFixed 0 chart_bottom), (''class'', ''axis'')]
     @ text_element [(''x'', FormatFixed 0 x), (''y'', FormatFixed 0 (chart_bottom + 92)), (''font-size'', ''12''), (''class'', ''muted'')]
         (EscapeString unit_name)"

definition throughput_bar :: "nat \<Rightarrow> rat \<Rightarrow> nat \<Rightarrow> Result \<Rightarrow> gostring" where
  "throughput_bar n maxThroughput index r =
     (let barGroup = f64 (500 / f64 (of_nat n));
          x = f64 (65 + f64 (f64 (of_nat index) * barGroup));
          barWidth = f64 (barGroup * f64 (58 / 100));
          barHeight = bar_height (rs_throughput r) maxThroughput;
          middle = f64 (x + f64 (barWidth / 2))
      in bar_rect x barWidth barHeight ''4'' ''throughput''
         @ bar_label middle (f64 (bar_top barHeight - 8)) ''12'' (rs_throughput r)
         @ axis_label middle (rs_scenario r))"

definition latency_bars :: "nat \<Rightarrow> rat \<Rightarrow> nat \<Rightarrow> Result \<Rightarrow> gostring" where
  "latency_bars n maxLatency index r =
     (let latencyGroup = f64 (490 / f64 (of_nat n));
          x = f64 (665 + f64 (f64 (of_nat index) * latencyGroup));
          barWidth = f64 (latencyGroup * f64 (28 / 100));
          p95 = ls_p95 (rs_latency r);
          p99 = ls_p99 (rs_latency r);
          p95Height = bar_height p95 maxLatency;
          p99Height = bar_height p99 maxLatency
      in bar_rect x barWidth p95Height ''3'' ''p95''
         @ bar_rect (f64 (f64 (x + barWidth) + 3)) barWidth p99Height ''3'' ''p99''
         @ bar_label (f64 (x + f64 (barWidth / 2))) (f64 (bar_top p95Height - 6)) ''10'' p95
         @ bar_label (f64 (f64 (x + f64 (barWidth * (3 / 2))) + 3)) (f64 (bar_top p99Height - 6)) ''10'' p99
         @ axis_label (f64 (f64 (x + barWidth) + 1)) (rs_scenario r))"

definition svg_prologue :: gostring where
  "svg_prologue =
     open_tag ''svg'' [(''xmlns'', ''http://www.w3.org/2000/svg''), (''width'', ''1200''), (''height'', ''650''), (''viewBox'', ''0 0 1200 650'')]
     @ ''>'' @ closed_element ''rect'' [(''width'', ''100%''), (''height'', ''100%''), (''fill'', ''#0b1220'')]
     @ ''<style>text{font-family:Inter,Arial,sans-serif;fill:#e5e7eb}.muted{fill:#94a3b8}.axis{stroke:#64748b;stroke-width:1}.throughput{fill:#38bdf8}.p95{fill:#a78bfa}.p99{fill:#f472b6}</style>''
     @ text_element [(''x'', ''48''), (''y'', ''42''), (''font-size'', ''25''), (''font-weight'', ''700'')] ''Measured gateway benchmark''
     @ text_element [(''x'', ''48''), (''y'', ''72''), (''font-size'', ''14''), (''class'', ''muted'')]
         (''Recorded values, not causal attribution '' @ [CHR 0xE2, CHR 0x80, CHR 0xA2] @ '' exact samples are committed as JSON'')
     @ drawPanel 55 500 ''Throughput'' ''requests / second'' @ drawPanel 655 490 ''Tail latency'' ''milliseconds''"

definition svg_legend :: gostring where
  "svg_legend =
     closed_element ''rect'' [(''x'', ''895''), (''y'', ''86''), (''width'', ''12''), (''height'', ''12''), (''class'', ''p95'')]
     @ text_element [(''x'', ''913''), (''y'', ''97''), (''font-size'', ''12'')] ''p95''
     @ closed_element ''rect'' [(''x'', ''950''), (''y'', ''86''), (''width'', ''12''), (''height'', ''12''), (''class'', ''p99'')]
     @ text_element [(''x'', ''968''), (''y'', ''97''), (''font-size'', ''12'')] ''p99'' @ ''</svg>''"

definition svg_text :: "Result list \<Rightarrow> gostring" where
  "svg_text rs =
     svg_prologue
     @ concat (map (\<lambda>(i, r). throughput_bar (length rs) (chart_maximum rs_throughput rs) i r) (enumerate 0 rs))
     @ concat (map (\<lambda>(i, r). latency_bars (length rs) (chart_maximum (\<lambda>r. ls_p99 (rs_latency r)) rs) i r) (enumerate 0 rs))
     @ svg_legend"

definition writeSVG :: "string option \<Rightarrow> Result list \<Rightarrow> string option \<times> gostring" where
  "writeSVG create_fault results =
     (if measured_results results = [] then (Some ''no throughput results available for chart'', [])
      else case create_fault of
        Some err \<Rightarrow> (Some (''create benchmark chart: '' @ err), [])
      | None \<Rightarrow> (None, svg_text (measured_results results)))"

text \<open>\<open>main\<close>: the first error, or the three texts.\<close>

definition report_flags :: "(gostring \<times> gostring) flag list" where
  "report_flags = [StringVar ''input'' (\<lambda>v (i, o'). (v, o')), StringVar ''output'' (\<lambda>v (i, o'). (i, v))]"

definition report_main ::
  "(gostring \<Rightarrow> Result result) \<Rightarrow> (gostring \<Rightarrow> raw_file list result) \<Rightarrow> string option \<Rightarrow> csv_faults \<Rightarrow> string option \<Rightarrow> string option
    \<Rightarrow> gostring list \<Rightarrow> string + gostring \<times> gostring \<times> gostring"
where
  "report_main json_decode listing mkdir cf md_fault svg_fault arguments =
     (case flag_Parse report_flags arguments (''results/raw'', ''results/analysis'') of
        Inl err \<Rightarrow> Inl ''flags''
      | Inr ((input, output), rest) \<Rightarrow>
          if rest \<noteq> [] then Inl ''unexpected positional arguments''
          else case readResults json_decode input (listing input) of Inl err \<Rightarrow> Inl err | Inr results \<Rightarrow>
          case mkdir of Some err \<Rightarrow> Inl (''create report directory: '' @ err) | None \<Rightarrow>
          case writeCSV cf results of (Some err, csv) \<Rightarrow> Inl err | (None, csv) \<Rightarrow>
          case writeMarkdown md_fault results of (Some err, md) \<Rightarrow> Inl err | (None, md) \<Rightarrow>
          case writeSVG svg_fault results of (Some err, svg) \<Rightarrow> Inl err | (None, svg) \<Rightarrow> Inr (csv, md, svg))"

section \<open>Properties\<close>

text \<open>A reference reader of comma-separated rows.\<close>

fun read_quoted :: "gostring \<Rightarrow> gostring \<times> gostring" where
  "read_quoted [] = ([], [])"
| "read_quoted (c # s) =
     (if c \<noteq> CHR 0x22 then (c # fst (read_quoted s), snd (read_quoted s))
      else if s \<noteq> [] \<and> hd s = CHR 0x22 then (c # fst (read_quoted (tl s)), snd (read_quoted (tl s)))
      else ([], s))"

definition read_field :: "gostring \<Rightarrow> gostring \<times> gostring" where
  "read_field s =
     (case s of
        [] \<Rightarrow> ([], [])
      | c # t \<Rightarrow>
          if c = CHR 0x22 then read_quoted t
          else (takeWhile (\<lambda>d. d \<noteq> CHR '','' \<and> d \<noteq> CHR 0x0A) s, dropWhile (\<lambda>d. d \<noteq> CHR '','' \<and> d \<noteq> CHR 0x0A) s))"

lemma read_quoted_length: "length (snd (read_quoted s)) \<le> length s"
proof (induction s rule: read_quoted.induct)
  case (2 c s)
  then show ?case by (cases s) (simp_all add: le_SucI)
qed simp

lemma read_field_length: "length (snd (read_field s)) \<le> length s"
proof (cases s)
  case (Cons c t)
  show ?thesis
  proof (cases "c = CHR 0x22")
    case True
    then show ?thesis using read_quoted_length [of t] Cons by (simp add: read_field_def)
  next
    case False
    then have "snd (read_field s) = dropWhile (\<lambda>d. d \<noteq> CHR '','' \<and> d \<noteq> CHR 0x0A) s" using Cons by (simp add: read_field_def)
    then show ?thesis by (simp add: length_dropWhile_le)
  qed
qed (simp add: read_field_def)

lemma read_field_tail: "read_field s = (f, c # t) \<Longrightarrow> length t < length s"
  using read_field_length [of s] by simp

function read_row :: "gostring \<Rightarrow> gostring list \<times> gostring" where
  "read_row s =
     (case read_field s of (f, r) \<Rightarrow>
        case r of [] \<Rightarrow> ([f], [])
        | c # t \<Rightarrow> if c = CHR '','' then (let (fs, u) = read_row t in (f # fs, u)) else ([f], t))"
  by pat_completeness auto
termination
  by (relation "measure length") (auto dest: read_field_tail [OF sym] read_field_tail)

declare read_row.simps [simp del]

abbreviation csv_special :: "char \<Rightarrow> bool" where
  "csv_special c \<equiv> c = CHR 0x0A \<or> c = CHR 0x0D \<or> c = CHR 0x22 \<or> c = CHR '',''"

lemma read_quoted_escaped:
  assumes "rest = [] \<or> hd rest \<noteq> CHR 0x22"
  shows "read_quoted (concat (map (\<lambda>c. if c = CHR 0x22 then [CHR 0x22, CHR 0x22] else [c]) f) @ CHR 0x22 # rest) = (f, rest)"
  using assms by (induction f) auto

lemma read_field_csv:
  assumes "d = CHR '','' \<or> d = CHR 0x0A"
  shows "read_field (csv_field f @ d # rest) = (f, d # rest)"
proof (cases "fieldNeedsQuotes f")
  case True
  have "d \<noteq> CHR 0x22" using assms by auto
  then show ?thesis using True read_quoted_escaped [of "d # rest" f] by (simp add: csv_field_def read_field_def)
next
  case False
  then have plain: "\<forall>c\<in>set f. \<not> csv_special c" by (auto simp: fieldNeedsQuotes_def list_ex_iff split: if_splits)
  have "takeWhile (\<lambda>d. d \<noteq> CHR '','' \<and> d \<noteq> CHR 0x0A) (f @ d # rest) = f"
    "dropWhile (\<lambda>d. d \<noteq> CHR '','' \<and> d \<noteq> CHR 0x0A) (f @ d # rest) = d # rest"
    using plain assms by (auto simp: takeWhile_append2 dropWhile_append2)
  moreover have "hd (f @ d # rest) \<noteq> CHR 0x22" using plain assms by (cases f) auto
  ultimately show ?thesis using False by (cases "f @ d # rest") (auto simp: csv_field_def read_field_def)
qed

lemma read_row_csv_line: "fs \<noteq> [] \<Longrightarrow> read_row (csv_line fs @ rest) = (fs, rest)"
proof (induction fs rule: csv_line.induct)
  case (2 f)
  then show ?case using read_field_csv [of "CHR 0x0A" f rest] by (subst read_row.simps) simp
next
  case (3 f g fs)
  have "read_field (csv_field f @ CHR '','' # csv_line (g # fs) @ rest) = (f, CHR '','' # csv_line (g # fs) @ rest)"
    by (rule read_field_csv) simp
  then show ?case using 3 by (subst read_row.simps) (simp del: csv_line.simps(3) add: csv_line.simps(3) [of f g fs])
qed simp

text \<open>All rows of a text.\<close>

function read_rows :: "gostring \<Rightarrow> gostring list list" where
  "read_rows s = (if s = [] then [] else let (fs, r) = read_row s in if length r < length s then fs # read_rows r else [fs])"
  by pat_completeness auto
termination by (relation "measure length") auto

declare read_rows.simps [simp del]

lemma csv_line_not_Nil: "csv_line fs \<noteq> []"
  by (cases fs rule: csv_line.cases) auto

lemma read_rows_csv: "\<forall>fs\<in>set rows. fs \<noteq> [] \<Longrightarrow> read_rows (concat (map csv_line rows)) = rows"
proof (induction rows)
  case Nil
  then show ?case by (subst read_rows.simps) simp
next
  case (Cons fs rows)
  let ?rest = "concat (map csv_line rows)"
  have "read_row (csv_line fs @ ?rest) = (fs, ?rest)" using Cons.prems by (intro read_row_csv_line) simp
  moreover have "0 < length (csv_line fs)" using csv_line_not_Nil [of fs] by simp
  ultimately show ?case using Cons by (subst read_rows.simps) (simp add: csv_line_not_Nil)
qed


definition no_csv_faults :: csv_faults where
  "no_csv_faults = \<lparr>cf_create = None, cf_write = None, cf_flush = None, cf_close = None\<rparr>"


text \<open>Names in the chart cannot add markup.\<close>

lemma EscapeString_safe: "c \<in> set (EscapeString s) \<Longrightarrow> c \<noteq> CHR ''<'' \<and> c \<noteq> CHR ''>'' \<and> c \<noteq> CHR 0x22 \<and> c \<noteq> CHR 0x27"
  by (auto simp: EscapeString_def escape_char_def split: if_splits)

lemma fold_max: "m \<le> fold (\<lambda>r m. max m (f r)) rs (m :: rat) \<and> (\<forall>r\<in>set rs. f r \<le> fold (\<lambda>r m. max m (f r)) rs m)"
proof (induction rs arbitrary: m)
  case (Cons r rs)
  have "max m (f r) \<le> fold (\<lambda>r m. max m (f r)) rs (max m (f r))" using Cons by blast
  then show ?case using Cons [of "max m (f r)"] by auto
qed simp

lemma chart_maximum_ge: "r \<in> set rs \<Longrightarrow> f r \<le> chart_maximum f rs \<and> 0 < chart_maximum f rs"
  using fold_max [of 0 f rs] by (auto simp: chart_maximum_def Let_def)

lemma bar_in_panel:
  assumes "0 \<le> v" and "v \<le> m" and "0 < m"
  shows "0 \<le> bar_height v m \<and> bar_height v m \<le> 430 \<and> 105 \<le> bar_top (bar_height v m) \<and> bar_top (bar_height v m) \<le> 535"
proof -
  have exact: "f64 1 = 1" "f64 430 = 430" "f64 105 = 105" "f64 535 = 535"
    using f64_of_int [of 1] f64_of_int [of 430] f64_of_int [of 105] f64_of_int [of 535] by simp_all
  have "0 \<le> f64 (v / m)" "f64 (v / m) \<le> f64 1" using assms by (auto intro!: f64_nonneg f64_mono)
  then have "0 \<le> f64 (v / m) * 430" "f64 (v / m) * 430 \<le> 430" using exact by simp_all
  then have h: "0 \<le> bar_height v m" "bar_height v m \<le> f64 430"
    unfolding bar_height_def by (auto intro!: f64_nonneg f64_mono)
  then have "f64 105 \<le> bar_top (bar_height v m)" "bar_top (bar_height v m) \<le> f64 535"
    unfolding bar_top_def by (intro f64_mono; simp add: exact)+
  then show ?thesis using h exact by simp
qed

text \<open>
  The chart's bars stay inside their panel: whatever the measurements, and even when all of them are
  zero, every bar has a height between 0 and 430 and its upper edge lies between the top of the panel
  and the axis.
\<close>

theorem chart_bars_in_panel:
  assumes "r \<in> set rs" and "0 \<le> rs_throughput r" and "0 \<le> ls_p95 (rs_latency r)" and "ls_p95 (rs_latency r) \<le> ls_p99 (rs_latency r)"
    and "(v, m) \<in> {(rs_throughput r, chart_maximum rs_throughput rs),
      (ls_p95 (rs_latency r), chart_maximum (\<lambda>r. ls_p99 (rs_latency r)) rs),
      (ls_p99 (rs_latency r), chart_maximum (\<lambda>r. ls_p99 (rs_latency r)) rs)}"
  shows "0 \<le> bar_height v m \<and> bar_height v m \<le> 430 \<and> 105 \<le> bar_top (bar_height v m) \<and> bar_top (bar_height v m) \<le> 535"
proof (rule bar_in_panel)
  note max = chart_maximum_ge [OF assms(1), of rs_throughput] chart_maximum_ge [OF assms(1), of "\<lambda>r. ls_p99 (rs_latency r)"]
  show "0 \<le> v" "v \<le> m" "0 < m" using assms(2-5) max by auto
qed

theorem chart_bars_in_panel_witness:
  "bar_height (rs_throughput (NewResult sample_metadata [])) (chart_maximum rs_throughput [NewResult sample_metadata []]) \<le> 430"
proof -
  let ?r = "NewResult sample_metadata []"
  have "rs_throughput ?r = f64 (0 / duration_seconds 1000000000) \<or> rs_throughput ?r = 0"
    by (simp add: NewResult_def Let_def sample_metadata_def)
  then have "0 \<le> rs_throughput ?r" by auto
  moreover have "ls_p95 (rs_latency ?r) = 0" "ls_p99 (rs_latency ?r) = 0" by (simp_all add: NewResult_def Let_def SummarizeLatency_def)
  ultimately show ?thesis
    using chart_bars_in_panel [of ?r "[?r]" "rs_throughput ?r" "chart_maximum rs_throughput [?r]"] by simp
qed

text \<open>The results come out ordered by scenario and tool, and none is lost.\<close>

lemma readResults_sorted:
  assumes "readResults json_decode directory (Inr files) = Inr rs"
  shows "sorted (map (\<lambda>r. (rs_scenario r, rs_tool r)) rs) \<and> length rs = length files"
proof -
  have len: "read_files json_decode fs = Inr rs' \<Longrightarrow> length rs' = length fs" for fs rs'
    by (induction fs arbitrary: rs') (auto simp: Let_def split: sum.splits option.splits prod.splits)
  show ?thesis using assms len by (auto simp: readResults_def split: if_splits sum.splits)
qed

end
