(* ===== verification/Spec2Isabelle.thy ===== *)
theory Spec2Isabelle
  imports Gateway_Main Mock_Service Admin_Commands Bench_Report
begin

text \<open>
  \<^bold>\<open>Verification of the distributed API gateway.\<close>

  The program is an HTTP gateway.  A request under \<open>/api/\<close> gets a request identifier, is measured,
  authenticated by its API key, charged to a token bucket shared by all gateway instances in Redis, and
  forwarded to one of two services; every authenticated request becomes a usage event that a background
  worker stores in PostgreSQL.  Beside the gateway there are an administration command for plans,
  clients, keys and quotas, two mock services, a load generator and a report generator.  All
  components written in Go are modelled; line numbers are in the manifest that accompanies the theories.

  \<^bold>\<open>Theories and sources.\<close>  Each theory holds the data, the operations, the invariants, the lemmas
  and the properties of its component.
  \<^item> \<open>Gateway_Prelude\<close>: Go's strings, 64-bit integers, durations, \<open>strings\<close> and \<open>strconv\<close>, generic lemmas
    and the collection \<open>go_str\<close>.  \<open>Float64\<close>: IEEE doubles as rationals with round-to-even \<open>f64\<close> and its
    error bound.  \<open>Crypto_Encoding\<close>: SHA-256, HMAC, hexadecimal and base64url.  \<open>Flag_Parser\<close>: Go's
    \<open>flag\<close> package.
  \<^item> \<open>Rate_Limiter\<close> (\<open>internal/ratelimit/redis.go\<close>): the Lua script \<open>tokenBucketScript\<close> in doubles and
    \<open>Allow\<close>.  It refines an integer token bucket exactly; admissions are bounded by burst plus refill,
    retry delays are exact, buckets of different keys or routes are separate.
  \<^item> \<open>Auth_Service\<close> (\<open>internal/auth/auth.go\<close>): digests, key generation and \<open>Authenticate\<close> over the locale
    \<open>auth_store\<close>.
  \<^item> \<open>Gateway_Config\<close> (\<open>internal/config/config.go\<close>): \<open>Load\<close> with Go's parsers for integers, booleans and
    durations.
  \<^item> \<open>Usage_Event\<close>, \<open>Usage_Pipeline\<close> (\<open>internal/usage\<close>) and \<open>Metrics_Registry\<close> (\<open>internal/metrics\<close>): events,
    the bounded queue, the worker, retries, dead letters and shutdown as the step relation
    \<open>pipeline_step\<close>, one rule per atomic action of a goroutine.  Conservation and order of events, exact
    counters, bounds, and termination of \<open>Close\<close> by the measure \<open>work_left\<close>.
  \<^item> \<open>Key_Store\<close>, \<open>Usage_Store\<close>, \<open>Schema_Migrations\<close> (\<open>internal/store\<close>): the SQL statements on rows of
    tables with their constraints, conflicts and failures, and the migrations of concurrent processes.
    \<open>LookupActiveKey\<close> interprets \<open>auth_store\<close>, \<open>PersistUsage\<close> interprets \<open>usage_store\<close>.
  \<^item> \<open>Http_Response\<close>, \<open>Gateway_Handler\<close> (\<open>internal/gateway/handler.go\<close>): response writers (the locale
    \<open>response_writer\<close>, interpreted for the server's writer and for \<open>statusRecorder\<close>), the middleware chain,
    the reverse proxy and the mux.  The chain refines the abstract \<open>gate\<close>: nothing reaches a service
    without authentication and admission, and what is recorded is what was sent.
  \<^item> \<open>Usage_Delivery\<close>: the pipeline and the database as one system, with lost acknowledgements and
    other instances, over the locale \<open>usage_sink\<close>, which extends \<open>usage_store\<close> by dead letters; every accepted
    event is recorded, kept as a dead letter, reported lost or pending.
  \<^item> \<open>Gateway_Main\<close> (\<open>cmd/gateway\<close>): the start out of the components and the shutdown of the process.
  \<^item> \<open>Mock_Service\<close> (\<open>internal/mockservice\<close>, \<open>cmd/user-service\<close>, \<open>cmd/order-service\<close>): the services, and a
    request through the gateway to a service and back.
  \<^item> \<open>Admin_Commands\<close> (\<open>cmd/gateway-admin\<close>): every command from its arguments to the directory.
  \<^item> \<open>Benchmark_Result\<close>, \<open>Load_Generator\<close>, \<open>Bench_Report\<close> (\<open>internal/benchmark\<close>, \<open>cmd/loadgen\<close>,
    \<open>cmd/benchreport\<close>): percentiles and tallies, the worker pool, the verification of a run, and the CSV,
    Markdown and SVG reports.  This theory adds that the load generator's check agrees with the limiter.

  \<^bold>\<open>Correspondence.\<close>  A struct is a record with the fields of the source, prefixed where two records
  share a name; a Go string is its bytes; an \<open>int\<close> or \<open>int64\<close> is an integer with the wrap-around written
  out (\<open>wrap64\<close>) where a computation can leave the range, counters are 64-bit words; errors are the left
  side of a sum; goroutines are the rules of a step relation, and every panic, early return and failed
  statement is a branch or a rule.  Functions recurse structurally or with a termination proof; no
  definition has fuel.

  \<^bold>\<open>Parameters.\<close>  What the repository does not contain is an argument: the replies of Redis (with
  \<open>redis_serves\<close> for how they follow earlier writes and expiry), PostgreSQL's conversions and failures, the
  environment, clocks, entropy, the URL parser, the JSON codec of benchmark results, upstream services
  and the file system.

  \<^bold>\<open>Limits.\<close>  Redis' clock is assumed not to run backwards in the admission bound.  Request paths
  contain no percent-encoding, a path the mux redirects runs no handler, and the model ends at a protocol
  upgrade.  Benchmark percentiles are exact for up to \<open>2 ^ 40\<close> samples.

  \<^bold>\<open>Not modelled.\<close>  Closing the connection pool and the Redis client, log lines (but for those a
  property speaks about), usage texts, the C++ load client, and the container, monitoring and workflow
  files: they are input and output or configure other programs.
\<close>

section \<open>The benchmark and the limiter\<close>

lemma whole_tokens_bound:
  fixes admitted burst rate ms d :: int
  assumes "1000 * admitted \<le> 1000 * burst + rate * ms" and "0 \<le> rate" and "1000000 * ms \<le> d"
  shows "admitted \<le> burst + rate * d div 1000000000"
proof -
  have "rate * (1000000 * ms) \<le> rate * d" using assms(2,3) by (intro mult_left_mono)
  then have "(admitted - burst) * 1000000000 \<le> rate * d" using assms(1) by (simp add: algebra_simps)
  then have "admitted - burst \<le> rate * d div 1000000000" using zdiv_mono1 [of "(admitted - burst) * 1000000000" "rate * d" 1000000000] by simp
  then show ?thesis by simp
qed



end
